theory Spec2Isabelle
  imports Main "HOL-Library.Word"
begin

unbundle bit_operations_syntax

section \<open>Bytes, fixed-size arrays and errors\<close>

type_synonym byte = "8 word"

text \<open>
  Go's array type \<^verbatim>\<open>[16]byte\<close>: the result type of \<^verbatim>\<open>md5.Sum\<close> and the size of one
  AES block (\<^verbatim>\<open>aes.BlockSize = 16\<close>). \<open>slice16\<close> is the slice expression \<^verbatim>\<open>s[:]\<close>,
  \<open>array16\<close> reads sixteen bytes back into an array.
\<close>

typedef bytes16 = "{bs :: byte list. length bs = 16}"
  morphisms slice16 array16
  by (rule exI [of _ "replicate 16 0"]) simp

text \<open>
  Every error value the protocol code can return. \<open>Wrapf p e\<close> is
  \<^verbatim>\<open>fmt.Errorf(p + ": %w", e)\<close>; \<open>Panic\<close> stands for a run-time panic of the
  standard library (the code never recovers from one).
\<close>

datatype error =
    InvalidByteError char
  | ErrLength
  | KeySizeError nat
  | NetError string
  | UnmarshalError string
  | HelloTooShort
  | ResponseTooShort nat
  | NotBlockMultiple
  | NoPowerState
  | Wrapf string error
  | Panic string

section \<open>The standard library the code calls\<close>

text \<open>
  \<^verbatim>\<open>crypto/md5\<close>, \<^verbatim>\<open>crypto/aes\<close> and \<^verbatim>\<open>encoding/json\<close> are not part of the
  repository; the model takes them as parameters. \<open>md5_Sum\<close> is \<^verbatim>\<open>md5.Sum\<close>,
  \<open>aes_Encrypt key\<close> and \<open>aes_Decrypt key\<close> are the one-block operations of the
  \<^verbatim>\<open>cipher.Block\<close> that \<^verbatim>\<open>aes.NewCipher(key)\<close> returns, and \<open>json_Unmarshal\<close> is
  \<^verbatim>\<open>json.Unmarshal\<close> into \<^verbatim>\<open>struct { Result []string `json:"result"` }\<close>, returning
  the \<^verbatim>\<open>Result\<close> field.
\<close>

record stdlib =
  md5_Sum :: "byte list \<Rightarrow> bytes16"
  aes_Encrypt :: "byte list \<Rightarrow> bytes16 \<Rightarrow> bytes16"
  aes_Decrypt :: "byte list \<Rightarrow> bytes16 \<Rightarrow> bytes16"
  json_Unmarshal :: "byte list \<Rightarrow> error + string list"

record Block =
  Encrypt :: "bytes16 \<Rightarrow> bytes16"
  Decrypt :: "bytes16 \<Rightarrow> bytes16"

text \<open>\<^verbatim>\<open>aes.NewCipher\<close>: a key of 16, 24 or 32 bytes, a \<^verbatim>\<open>KeySizeError\<close> otherwise.\<close>

definition aes_NewCipher :: "stdlib \<Rightarrow> byte list \<Rightarrow> error + Block" where
  "aes_NewCipher L key =
     (if length key = 16 \<or> length key = 24 \<or> length key = 32
      then Inr \<lparr>Encrypt = aes_Encrypt L key, Decrypt = aes_Decrypt L key\<rparr>
      else Inl (KeySizeError (length key)))"

text \<open>The built-in \<^verbatim>\<open>copy(dst, src)\<close>: the new contents of \<open>dst\<close>.\<close>

definition copy :: "byte list \<Rightarrow> byte list \<Rightarrow> byte list" where
  "copy dst src = take (length dst) src @ drop (length src) dst"

text \<open>\<^verbatim>\<open>copy(dst[lo:hi], src)\<close> on a slice of a larger array.\<close>

definition copy_at :: "byte list \<Rightarrow> nat \<Rightarrow> nat \<Rightarrow> byte list \<Rightarrow> byte list" where
  "copy_at dst lo hi src =
     take lo dst @ copy (take (hi - lo) (drop lo dst)) src @ drop hi dst"

definition xorBytes :: "byte list \<Rightarrow> byte list \<Rightarrow> byte list" where
  "xorBytes a b = map2 (XOR) a b"

text \<open>
  The loops of \<^verbatim>\<open>crypto/cipher\<close>'s CBC mode over full blocks: each plaintext block is
  xored with the previous ciphertext block (the IV for the first) and encrypted; each
  ciphertext block is decrypted and xored with the previous ciphertext block.
\<close>

function cbcEncryptLoop :: "(bytes16 \<Rightarrow> bytes16) \<Rightarrow> byte list \<Rightarrow> byte list \<Rightarrow> byte list" where
  "cbcEncryptLoop E iv src =
     (if src = [] then []
      else (let c = slice16 (E (array16 (xorBytes (take 16 src) iv)))
            in c @ cbcEncryptLoop E c (drop 16 src)))"
  by pat_completeness auto
termination
  by (relation "measure (\<lambda>(E, iv, src). length src)") auto

function cbcDecryptLoop :: "(bytes16 \<Rightarrow> bytes16) \<Rightarrow> byte list \<Rightarrow> byte list \<Rightarrow> byte list" where
  "cbcDecryptLoop D iv src =
     (if src = [] then []
      else (let c = take 16 src
            in xorBytes (slice16 (D (array16 c))) iv @ cbcDecryptLoop D c (drop 16 src)))"
  by pat_completeness auto
termination
  by (relation "measure (\<lambda>(D, iv, src). length src)") auto

text \<open>
  \<^verbatim>\<open>cipher.NewCBCEncrypter(block, iv).CryptBlocks(dst, src)\<close> and its decrypting twin,
  with the panics of the library as error values; the result is the new contents of
  \<open>dst\<close>.
\<close>

definition CBCEncrypter_CryptBlocks ::
  "Block \<Rightarrow> byte list \<Rightarrow> byte list \<Rightarrow> byte list \<Rightarrow> error + byte list" where
  "CBCEncrypter_CryptBlocks block iv dst src =
     (if length iv \<noteq> 16
      then Inl (Panic ''cipher.NewCBCEncrypter: IV length must equal block size'')
      else if length src mod 16 \<noteq> 0
      then Inl (Panic ''crypto/cipher: input not full blocks'')
      else if length dst < length src
      then Inl (Panic ''crypto/cipher: output smaller than input'')
      else Inr (copy dst (cbcEncryptLoop (Encrypt block) iv src)))"

definition CBCDecrypter_CryptBlocks ::
  "Block \<Rightarrow> byte list \<Rightarrow> byte list \<Rightarrow> byte list \<Rightarrow> error + byte list" where
  "CBCDecrypter_CryptBlocks block iv dst src =
     (if length iv \<noteq> 16
      then Inl (Panic ''cipher.NewCBCDecrypter: IV length must equal block size'')
      else if length src mod 16 \<noteq> 0
      then Inl (Panic ''crypto/cipher: input not full blocks'')
      else if length dst < length src
      then Inl (Panic ''crypto/cipher: output smaller than input'')
      else Inr (copy dst (cbcDecryptLoop (Decrypt block) iv src)))"

section \<open>xiaomi.go: the crypto engine\<close>

definition md5sum :: "stdlib \<Rightarrow> byte list \<Rightarrow> byte list" where
  "md5sum L data = (let s = md5_Sum L data in slice16 s)"

definition encryptPayload :: "stdlib \<Rightarrow> byte list \<Rightarrow> byte list \<Rightarrow> error + byte list" where
  "encryptPayload L data token =
     (let key = md5sum L token;
          iv = md5sum L (key @ token);
          padding = 16 - length data mod 16;
          padded = copy (replicate (length data + padding) 0) data;
          padded = fold (\<lambda>i p. p[i := of_nat padding]) [length data ..< length padded] padded
      in case aes_NewCipher L key of
           Inl err \<Rightarrow> Inl err
         | Inr block \<Rightarrow>
             (let ciphertext = replicate (length padded) 0
              in CBCEncrypter_CryptBlocks block iv ciphertext padded))"

definition decryptPayload :: "stdlib \<Rightarrow> byte list \<Rightarrow> byte list \<Rightarrow> error + byte list" where
  "decryptPayload L encryptedData token =
     (let key = md5sum L token;
          iv = md5sum L (key @ token)
      in if length encryptedData mod 16 \<noteq> 0 then Inl NotBlockMultiple
         else
           (case aes_NewCipher L key of
              Inl err \<Rightarrow> Inl err
            | Inr block \<Rightarrow>
                (let plaintext = replicate (length encryptedData) 0
                 in case CBCDecrypter_CryptBlocks block iv plaintext encryptedData of
                      Inl err \<Rightarrow> Inl err
                    | Inr plaintext \<Rightarrow>
                        (if length plaintext > 0 then
                           (let pad = unat (plaintext ! (length plaintext - 1))
                            in if pad > 0 \<and> pad \<le> 16 \<and> pad \<le> length plaintext
                               then Inr (take (length plaintext - pad) plaintext)
                               else Inr plaintext)
                         else Inr plaintext))))"

section \<open>xiaomi.go: the packet codec\<close>

text \<open>The slice expression \<^verbatim>\<open>xs[lo:hi]\<close>, for \<open>lo \<le> hi \<le> length xs\<close>.\<close>

definition subslice :: "byte list \<Rightarrow> nat \<Rightarrow> nat \<Rightarrow> byte list" where
  "subslice xs lo hi = take (hi - lo) (drop lo xs)"

definition buildPacket ::
  "stdlib \<Rightarrow> byte list \<Rightarrow> byte list \<Rightarrow> byte list \<Rightarrow> byte list \<Rightarrow> byte list" where
  "buildPacket L token deviceID stamp encryptedData =
     (let pkt = replicate (32 + length encryptedData) 0;
          pkt = pkt[0 := 0x21];
          pkt = pkt[1 := 0x31];
          len = (of_nat (length pkt) :: 16 word);
          pkt = pkt[2 := ucast (drop_bit 8 len)];
          pkt = pkt[3 := ucast len];
          pkt = copy_at pkt 8 12 deviceID;
          pkt = copy_at pkt 12 16 stamp;
          pkt = copy_at pkt 32 (length pkt) encryptedData;
          checksumInput = replicate (16 + length token + length encryptedData) 0;
          checksumInput = copy_at checksumInput 0 16 (subslice pkt 0 16);
          checksumInput = copy_at checksumInput 16 (length checksumInput) token;
          checksumInput =
            copy_at checksumInput (16 + length token) (length checksumInput) encryptedData;
          sum = md5_Sum L checksumInput;
          pkt = copy_at pkt 16 32 (slice16 sum)
      in pkt)"

section \<open>The network\<close>

text \<open>
  Each call of \<^verbatim>\<open>net.DialTimeout\<close> starts one exchange on a fresh socket: the dial
  succeeds or fails, the write succeeds or fails, and the read delivers a datagram or
  fails (a timeout is such a failure). The code performs at most two exchanges per
  call, the hello exchange of \<^verbatim>\<open>discoverDevice\<close> and the command exchange; what the
  network does in each is an input of the model, and what the code does to the network
  is returned as a list of events.
\<close>

record udp_exchange =
  dial_err :: "error option"
  write_err :: "error option"
  read_res :: "error + byte list"

record network =
  hello_exchange :: udp_exchange
  command_exchange :: udp_exchange

datatype net_event =
    DialTimeout string nat
  | SetDeadline nat
  | Write "byte list"
  | Read nat
  | Close

text \<open>
  \<^verbatim>\<open>conn.Read(buf)\<close>: the number of bytes read and the new contents of \<open>buf\<close>; a
  datagram longer than the buffer is cut to the buffer's length.
\<close>

definition conn_Read :: "udp_exchange \<Rightarrow> byte list \<Rightarrow> error + nat \<times> byte list" where
  "conn_Read x buf =
     (case read_res x of
        Inl err \<Rightarrow> Inl err
      | Inr datagram \<Rightarrow> Inr (min (length datagram) (length buf), copy buf datagram))"

section \<open>encoding/hex and encoding/json as the code uses them\<close>

text \<open>
  \<^verbatim>\<open>hex.DecodeString\<close>: two hex digits per byte, upper or lower case; the first
  character that is no hex digit is an \<^verbatim>\<open>InvalidByteError\<close>, an odd number of
  hex digits is \<^verbatim>\<open>ErrLength\<close>.
\<close>

definition reverseHexTable :: "char \<Rightarrow> byte" where
  "reverseHexTable c =
     (let n = (of_char c :: nat)
      in if 48 \<le> n \<and> n \<le> 57 then of_nat (n - 48)
         else if 97 \<le> n \<and> n \<le> 102 then of_nat (n - 87)
         else if 65 \<le> n \<and> n \<le> 70 then of_nat (n - 55)
         else 0xff)"

fun hex_DecodeString :: "string \<Rightarrow> error + byte list" where
  "hex_DecodeString (p # q # rest) =
     (let a = reverseHexTable p; b = reverseHexTable q
      in if a > 0x0f then Inl (InvalidByteError p)
         else if b > 0x0f then Inl (InvalidByteError q)
         else (case hex_DecodeString rest of
                 Inl err \<Rightarrow> Inl err
               | Inr bs \<Rightarrow> Inr ((push_bit 4 a OR b) # bs)))"
| "hex_DecodeString [p] =
     (if reverseHexTable p > 0x0f then Inl (InvalidByteError p) else Inl ErrLength)"
| "hex_DecodeString [] = Inr []"

text \<open>
  \<^verbatim>\<open>json.Marshal\<close> of the command map
  \<^verbatim>\<open>{"id": 1, "method": method, "params": []interface{}{param}}\<close>: the keys in sorted
  order, no white space. The method and parameter strings of the code hold no
  character that JSON escapes, and marshalling such a map never fails, so the
  \<^verbatim>\<open>err != nil\<close> branch after it is dead.
\<close>

definition json_Marshal_command :: "string \<Rightarrow> string \<Rightarrow> byte list" where
  \<open>json_Marshal_command method param =
     map of_char (''{"id":1,"method":"'' @ method @ ''","params":["'' @ param @ ''"]}'')\<close>

section \<open>xiaomi.go: discovery and commands\<close>

definition discoverDevice ::
  "udp_exchange \<Rightarrow> string \<Rightarrow> (error + byte list \<times> byte list) \<times> net_event list" where
  "discoverDevice net ipAddress =
     (let hello = replicate 32 0;
          hello = hello[0 := 0x21];
          hello = hello[1 := 0x31];
          hello = hello[2 := 0x00];
          hello = hello[3 := 0x20];
          hello = fold (\<lambda>i h. h[i := 0xFF]) [4 ..< 32] hello;
          dial = [DialTimeout (ipAddress @ '':54321'') 5]
      in case dial_err net of
           Some err \<Rightarrow> (Inl err, dial)
         | None \<Rightarrow>
             (case write_err net of
                Some err \<Rightarrow> (Inl err, dial @ [SetDeadline 5, Write hello, Close])
              | None \<Rightarrow>
                  (let io = dial @ [SetDeadline 5, Write hello, Read 1024, Close]
                   in case conn_Read net (replicate 1024 0) of
                        Inl err \<Rightarrow> (Inl err, io)
                      | Inr (n, buf) \<Rightarrow>
                          (if n < 16 then (Inl HelloTooShort, io)
                           else (Inr (subslice buf 8 12, subslice buf 12 16), io)))))"

definition setPower ::
  "stdlib \<Rightarrow> udp_exchange \<Rightarrow> string \<Rightarrow> byte list \<Rightarrow> byte list \<Rightarrow> byte list \<Rightarrow> bool
     \<Rightarrow> error option \<times> net_event list" where
  "setPower L net ipAddress token deviceID stamp powerOn =
     (let state = (if powerOn then ''on'' else ''off'');
          jsonData = json_Marshal_command ''set_power'' state
      in case encryptPayload L jsonData token of
           Inl err \<Rightarrow> (Some err, [])
         | Inr encrypted \<Rightarrow>
             (let packet = buildPacket L token deviceID stamp encrypted;
                  dial = [DialTimeout (ipAddress @ '':54321'') 5]
              in case dial_err net of
                   Some err \<Rightarrow> (Some err, dial)
                 | None \<Rightarrow>
                     (case write_err net of
                        Some err \<Rightarrow> (Some err, dial @ [SetDeadline 3, Write packet, Close])
                      | None \<Rightarrow>
                          (None, dial @ [SetDeadline 3, Write packet, Read 1024, Close]))))"

definition setSwitch ::
  "stdlib \<Rightarrow> network \<Rightarrow> string \<Rightarrow> string \<Rightarrow> bool \<Rightarrow> error option \<times> net_event list" where
  "setSwitch L net host token on =
     (case hex_DecodeString token of
        Inl err \<Rightarrow> (Some (Wrapf ''decoding token'' err), [])
      | Inr tokenBytes \<Rightarrow>
          (case discoverDevice (hello_exchange net) host of
             (Inl err, evs) \<Rightarrow> (Some (Wrapf ''discovery'' err), evs)
           | (Inr (deviceID, stamp), evs) \<Rightarrow>
               (case setPower L (command_exchange net) host tokenBytes deviceID stamp on of
                  (res, evs') \<Rightarrow> (res, evs @ evs'))))"

definition getSwitch ::
  "stdlib \<Rightarrow> network \<Rightarrow> string \<Rightarrow> string \<Rightarrow> (bool \<times> error option) \<times> net_event list" where
  "getSwitch L net host token =
     (case hex_DecodeString token of
        Inl err \<Rightarrow> ((False, Some (Wrapf ''decoding token'' err)), [])
      | Inr tokenBytes \<Rightarrow>
          (case discoverDevice (hello_exchange net) host of
             (Inl err, evs) \<Rightarrow> ((False, Some (Wrapf ''discovery'' err)), evs)
           | (Inr (deviceID, stamp), evs) \<Rightarrow>
               (let jsonData = json_Marshal_command ''get_prop'' ''power''
                in case encryptPayload L jsonData tokenBytes of
                     Inl err \<Rightarrow> ((False, Some err), evs)
                   | Inr encrypted \<Rightarrow>
                       (let packet = buildPacket L tokenBytes deviceID stamp encrypted;
                            conn = command_exchange net;
                            dial = evs @ [DialTimeout (host @ '':54321'') 5]
                        in case dial_err conn of
                             Some err \<Rightarrow> ((False, Some err), dial)
                           | None \<Rightarrow>
                               (case write_err conn of
                                  Some err \<Rightarrow>
                                    ((False, Some err),
                                     dial @ [SetDeadline 3, Write packet, Close])
                                | None \<Rightarrow>
                                    (let io = dial @ [SetDeadline 3, Write packet, Read 1024, Close]
                                     in case conn_Read conn (replicate 1024 0) of
                                          Inl err \<Rightarrow>
                                            ((False, Some (Wrapf ''reading response'' err)), io)
                                        | Inr (n, buf) \<Rightarrow>
                                            (if n < 32 then ((False, Some (ResponseTooShort n)), io)
                                             else
                                               (case decryptPayload L (subslice buf 32 n) tokenBytes of
                                                  Inl err \<Rightarrow>
                                                    ((False, Some (Wrapf ''decrypting response'' err)), io)
                                                | Inr decrypted \<Rightarrow>
                                                    (case json_Unmarshal L decrypted of
                                                       Inl err \<Rightarrow>
                                                         ((False, Some (Wrapf ''parsing response'' err)), io)
                                                     | Inr result \<Rightarrow>
                                                         (if length result > 0
                                                          then ((result ! 0 = ''on'', None), io)
                                                          else ((False, Some NoPowerState), io)))))))))))"

section \<open>A stand-in library and concrete inputs\<close>

text \<open>
  The theorems below hold for every library. To evaluate the model on concrete inputs
  the parameters are instantiated with small stand-ins: a digest that reverses the
  first sixteen input bytes and xors them with the input length, a block operation
  that xors the block with the key, and a parser that rejects empty input and knows
  three documents. They are
  not MD5, AES or a JSON parser; they only have the types of the real functions, and
  the block operation is its own inverse.
\<close>

definition stub_md5 :: "byte list \<Rightarrow> bytes16" where
  "stub_md5 data =
     array16 (map (\<lambda>b. b XOR of_nat (length data)) (rev (take 16 (data @ replicate 16 0))))"

definition stub_keystream :: "byte list \<Rightarrow> byte list" where
  "stub_keystream key = take 16 (key @ replicate 16 0)"

definition stub_aes :: "byte list \<Rightarrow> bytes16 \<Rightarrow> bytes16" where
  "stub_aes key b = array16 (xorBytes (slice16 b) (stub_keystream key))"

definition stub_Unmarshal :: "byte list \<Rightarrow> error + string list" where
  \<open>stub_Unmarshal data =
     (if data = [] then Inl (UnmarshalError ''unexpected end of JSON input'')
      else if data = map of_char ''{"id":1,"result":["on"]}'' then Inr [''on'']
      else if data = map of_char ''{"id":1,"result":["off"]}'' then Inr [''off'']
      else if data = map of_char ''{"id":1,"result":[]}'' then Inr []
      else Inl (UnmarshalError ''unsupported document''))\<close>

definition stub_lib :: stdlib where
  "stub_lib = \<lparr>md5_Sum = stub_md5, aes_Encrypt = stub_aes, aes_Decrypt = stub_aes,
                json_Unmarshal = stub_Unmarshal\<rparr>"

text \<open>The token of the README's examples, as the hex string and as its sixteen bytes.\<close>

definition token_hex0 :: string where
  "token_hex0 = ''a1b2c3d4e5f6a1b2c3d4e5f6a1b2c3d4''"

definition token0 :: "byte list" where
  "token0 = [0xa1, 0xb2, 0xc3, 0xd4, 0xe5, 0xf6, 0xa1, 0xb2,
             0xc3, 0xd4, 0xe5, 0xf6, 0xa1, 0xb2, 0xc3, 0xd4]"

definition host0 :: string where
  "host0 = ''192.168.1.100''"

text \<open>
  A hello reply carrying device id \<open>00 00 00 01\<close> and stamp \<open>00 00 00 02\<close>, and a
  status reply whose payload is the document \<^verbatim>\<open>{"id":1,"result":["on"]}\<close> encrypted
  with the stand-in library under \<open>token0\<close>.
\<close>

definition hello_reply0 :: "byte list" where
  "hello_reply0 =
     [0x21, 0x31, 0x00, 0x20, 0x00, 0x00, 0x00, 0x00, 0x00, 0x00, 0x00, 0x01, 0x00, 0x00, 0x00, 0x02,
      0xff, 0xff, 0xff, 0xff, 0xff, 0xff, 0xff, 0xff, 0xff, 0xff, 0xff, 0xff, 0xff, 0xff, 0xff, 0xff]"

definition status_reply0 :: "byte list" where
  "status_reply0 =
     [0x21, 0x31, 0x00, 0x40, 0x00, 0x00, 0x00, 0x00, 0x00, 0x00, 0x00, 0x01, 0x00, 0x00, 0x00, 0x03,
      0x00, 0x00, 0x00, 0x00, 0x00, 0x00, 0x00, 0x00, 0x00, 0x00, 0x00, 0x00, 0x00, 0x00, 0x00, 0x00,
      0x2e, 0x73, 0x38, 0x31, 0x11, 0x09, 0x64, 0x7d, 0x73, 0x27, 0x56, 0x40, 0x20, 0x3d, 0x25, 0x77,
      0xd0, 0xfb, 0xb8, 0xef, 0x99, 0xde, 0xfd, 0xd3, 0xd9, 0x9e, 0xb8, 0xbd, 0xec, 0xe6, 0x8f, 0xce]"

definition net_ok :: network where
  "net_ok =
     \<lparr>hello_exchange = \<lparr>dial_err = None, write_err = None, read_res = Inr hello_reply0\<rparr>,
      command_exchange = \<lparr>dial_err = None, write_err = None, read_res = Inr status_reply0\<rparr>\<rparr>"

text \<open>The same network, except that no reply to the command arrives before the deadline.\<close>

definition net_silent :: network where
  "net_silent =
     net_ok\<lparr>command_exchange :=
              (command_exchange net_ok)\<lparr>read_res := Inl (NetError ''i/o timeout'')\<rparr>\<rparr>"

text \<open>The set of characters \<^verbatim>\<open>hex.DecodeString\<close> accepts.\<close>

definition hexDigits :: "char set" where
  "hexDigits = set ''0123456789abcdefABCDEF''"

text \<open>
  The first sixteen bytes \<^verbatim>\<open>buildPacket\<close> writes for a payload of \<open>n\<close> bytes: magic,
  length, four reserved bytes, device id and stamp.
\<close>

definition hdr16 :: "nat \<Rightarrow> byte list \<Rightarrow> byte list \<Rightarrow> byte list" where
  "hdr16 n deviceID stamp =
     [0x21, 0x31, ucast (drop_bit 8 (of_nat (32 + n) :: 16 word)), ucast (of_nat (32 + n) :: 16 word),
      0, 0, 0, 0] @ copy [0, 0, 0, 0] deviceID @ copy [0, 0, 0, 0] stamp"

section \<open>Facts about slices and the CBC loops\<close>

lemma length_slice16: "length (slice16 b) = 16"
  using slice16 [of b] by simp

lemma slice16_array16: "length bs = 16 \<Longrightarrow> slice16 (array16 bs) = bs"
  by (simp add: array16_inverse)

lemma length_md5sum: "length (md5sum L data) = 16"
  by (simp add: md5sum_def length_slice16)

declare cbcEncryptLoop.simps [simp del] cbcDecryptLoop.simps [simp del]

lemma cbcEncryptLoop_Nil: "cbcEncryptLoop E iv [] = []"
  by (subst cbcEncryptLoop.simps) simp

lemma cbcDecryptLoop_Nil: "cbcDecryptLoop D iv [] = []"
  by (subst cbcDecryptLoop.simps) simp

lemma fold_fill_aux:
  "n + k = length p \<Longrightarrow> fold (\<lambda>i p. p[i := v]) [n ..< n + k] p = take n p @ replicate k v"
proof (induction k arbitrary: n p)
  case 0
  then show ?case by simp
next
  case (Suc k)
  have "fold (\<lambda>i p. p[i := v]) [n ..< n + Suc k] p
        = fold (\<lambda>i p. p[i := v]) [Suc n ..< Suc n + k] (p[n := v])"
    using upt_conv_Cons [of n "n + Suc k"] by simp
  also have "\<dots> = take (Suc n) (p[n := v]) @ replicate k v"
    using Suc.prems by (intro Suc.IH) simp
  also have "\<dots> = take n p @ replicate (Suc k) v"
    using Suc.prems by (simp add: take_Suc_conv_app_nth)
  finally show ?case .
qed

lemma fold_fill:
  "n \<le> length p \<Longrightarrow> fold (\<lambda>i p. p[i := v]) [n ..< length p] p = take n p @ replicate (length p - n) v"
  using fold_fill_aux [of n "length p - n" p v] by simp

lemma copy_into_zeros: "copy (replicate (length d + k) z) d = d @ replicate k z"
  by (simp add: copy_def)

lemma copy_same_length: "length src = length dst \<Longrightarrow> copy dst src = src"
  by (simp add: copy_def)

lemma length_xorBytes: "length (xorBytes a b) = min (length a) (length b)"
  by (simp add: xorBytes_def)

lemma xorBytes_cancel: "length a = length b \<Longrightarrow> xorBytes (xorBytes a b) b = a"
proof (induction a arbitrary: b)
  case Nil
  then show ?case by (simp add: xorBytes_def)
next
  case (Cons x a)
  then obtain y b' where "b = y # b'" by (cases b) auto
  with Cons show ?case by (simp add: xorBytes_def xor.assoc)
qed

lemma length_cbcEncryptLoop:
  "length src mod 16 = 0 \<Longrightarrow> length (cbcEncryptLoop E iv src) = length src"
proof (induction E iv src rule: cbcEncryptLoop.induct)
  case (1 E iv src)
  show ?case
  proof (cases "src = []")
    case True
    then show ?thesis by (simp add: cbcEncryptLoop_Nil)
  next
    case False
    with "1.prems" have ge: "16 \<le> length src" by (cases "length src < 16") auto
    have al: "length (drop 16 src) mod 16 = 0"
      using "1.prems" ge by (simp add: mod_diff_right_eq le_mod_geq)
    define c where "c = slice16 (E (array16 (xorBytes (take 16 src) iv)))"
    have "length (cbcEncryptLoop E c (drop 16 src)) = length (drop 16 src)"
      using "1.IH" [OF False c_def al] .
    then show ?thesis
      using False ge by (subst cbcEncryptLoop.simps) (simp add: Let_def c_def length_slice16)
  qed
qed


lemma aligned_nonempty: "length src mod 16 = 0 \<Longrightarrow> src \<noteq> [] \<Longrightarrow> 16 \<le> length (src :: 'a list)"
  by (cases "length src < 16") auto

lemma aligned_drop: "length src mod 16 = 0 \<Longrightarrow> length (drop 16 src) mod 16 = (0::nat)"
  by (cases "length src < 16") (simp_all add: le_mod_geq)

lemma length_cbcDecryptLoop:
  "length iv = 16 \<Longrightarrow> length src mod 16 = 0 \<Longrightarrow> length (cbcDecryptLoop D iv src) = length src"
proof (induction D iv src rule: cbcDecryptLoop.induct)
  case (1 D iv src)
  show ?case
  proof (cases "src = []")
    case True
    then show ?thesis by (simp add: cbcDecryptLoop_Nil)
  next
    case False
    have ge: "16 \<le> length src" using "1.prems"(2) False by (rule aligned_nonempty)
    have lt: "length (take 16 src) = 16" using ge by simp
    have "length (cbcDecryptLoop D (take 16 src) (drop 16 src)) = length (drop 16 src)"
      using "1.IH" [OF False refl lt aligned_drop [OF "1.prems"(2)]] .
    then show ?thesis
      using False ge "1.prems"(1)
      by (subst cbcDecryptLoop.simps) (simp add: Let_def length_xorBytes length_slice16)
  qed
qed

lemma cbc_roundtrip:
  "length iv = 16 \<Longrightarrow> length src mod 16 = 0 \<Longrightarrow> (\<And>b. D (E b) = b) \<Longrightarrow>
   cbcDecryptLoop D iv (cbcEncryptLoop E iv src) = src"
proof (induction E iv src rule: cbcEncryptLoop.induct)
  case (1 E iv src)
  note inv = "1.prems"(3)
  show ?case
  proof (cases "src = []")
    case True
    then show ?thesis by (simp add: cbcEncryptLoop_Nil cbcDecryptLoop_Nil)
  next
    case False
    have ge: "16 \<le> length src" using "1.prems"(2) False by (rule aligned_nonempty)
    define x where "x = xorBytes (take 16 src) iv"
    define c where "c = slice16 (E (array16 x))"
    have lx: "length x = 16" using ge "1.prems"(1) by (simp add: x_def length_xorBytes)
    have lc: "length c = 16" by (simp add: c_def length_slice16)
    have enc: "cbcEncryptLoop E iv src = c @ cbcEncryptLoop E c (drop 16 src)"
      using False by (subst cbcEncryptLoop.simps) (simp add: Let_def c_def x_def)
    have rest: "cbcDecryptLoop D c (cbcEncryptLoop E c (drop 16 src)) = drop 16 src"
      using "1.IH" [OF False c_def [unfolded x_def] lc aligned_drop [OF "1.prems"(2)] inv] .
    have "slice16 (D (array16 c)) = x"
      by (simp add: c_def slice16_inverse inv slice16_array16 lx)
    moreover have "xorBytes x iv = take 16 src"
      using ge "1.prems"(1) by (simp add: x_def xorBytes_cancel)
    ultimately have "cbcDecryptLoop D iv (c @ cbcEncryptLoop E c (drop 16 src))
        = take 16 src @ drop 16 src"
      using lc rest by (subst cbcDecryptLoop.simps) (auto simp add: Let_def)
    then show ?thesis by (simp add: enc)
  qed
qed

lemma padded_eq:
  "fold (\<lambda>i p. p[i := v]) [length d ..< length (copy (replicate (length d + k) 0) d)]
        (copy (replicate (length d + k) 0) d) = d @ replicate k v"
  using fold_fill [of "length d" "d @ replicate k 0" v] by (simp add: copy_into_zeros)

lemma pad_aligned: "(n + (16 - n mod 16)) mod 16 = (0::nat)"
  by presburger

lemma encryptPayload_eq:
  "encryptPayload L data token =
     Inr (cbcEncryptLoop (aes_Encrypt L (md5sum L token)) (md5sum L (md5sum L token @ token))
            (data @ replicate (16 - length data mod 16) (of_nat (16 - length data mod 16))))"
proof -
  define k where "k = 16 - length data mod 16"
  have al: "(length data + k) mod 16 = 0"
    unfolding k_def by (rule pad_aligned)
  have "encryptPayload L data token =
     Inr (cbcEncryptLoop (aes_Encrypt L (md5sum L token)) (md5sum L (md5sum L token @ token))
            (data @ replicate k (of_nat k)))"
    unfolding encryptPayload_def Let_def k_def [symmetric] padded_eq
    by (simp add: aes_NewCipher_def length_md5sum CBCEncrypter_CryptBlocks_def al
          length_cbcEncryptLoop copy_same_length)
  then show ?thesis by (simp only: k_def)
qed

lemma decryptPayload_eq:
  "length ct mod 16 = 0 \<Longrightarrow>
   decryptPayload L ct token =
     (let pt = cbcDecryptLoop (aes_Decrypt L (md5sum L token)) (md5sum L (md5sum L token @ token)) ct;
          pad = unat (last pt)
      in if pt \<noteq> [] \<and> 0 < pad \<and> pad \<le> 16 \<and> pad \<le> length pt
         then Inr (take (length pt - pad) pt) else Inr pt)"
proof -
  assume al: "length ct mod 16 = 0"
  define pt where
    "pt = cbcDecryptLoop (aes_Decrypt L (md5sum L token)) (md5sum L (md5sum L token @ token)) ct"
  have lpt: "length pt = length ct"
    using al by (simp add: pt_def length_cbcDecryptLoop length_md5sum)
  have crypt: "CBCDecrypter_CryptBlocks
       \<lparr>Encrypt = aes_Encrypt L (md5sum L token), Decrypt = aes_Decrypt L (md5sum L token)\<rparr>
       (md5sum L (md5sum L token @ token)) (replicate (length ct) 0) ct = Inr pt"
    using al lpt by (simp add: CBCDecrypter_CryptBlocks_def length_md5sum copy_same_length pt_def)
  have nth: "pt \<noteq> [] \<Longrightarrow> pt ! (length pt - 1) = last pt"
    by (simp add: last_conv_nth)
  show ?thesis
    unfolding decryptPayload_def Let_def pt_def [symmetric]
    using al nth by (simp add: aes_NewCipher_def length_md5sum crypt)
qed

lemma replicate_numeral: "replicate (numeral k) x = x # replicate (pred_numeral k) x"
  by (simp add: numeral_eq_Suc)

lemma slice_copy_buf:
  "hi \<le> min (length datagram) (length buf) \<Longrightarrow> subslice (copy buf datagram) lo hi = subslice datagram lo hi"
proof -
  assume hi: "hi \<le> min (length datagram) (length buf)"
  have "subslice (copy buf datagram) lo hi = take (hi - lo) (drop lo (take (length buf) datagram))"
    using hi by (auto simp add: subslice_def copy_def)
  also have "\<dots> = take (hi - lo) (drop lo datagram)"
  proof -
    have "min (hi - lo) (length buf - lo) = hi - lo" using hi by arith
    then show ?thesis by (simp add: drop_take)
  qed
  finally show ?thesis by (simp add: subslice_def)
qed

lemma discoverDevice_ok:
  assumes "dial_err x = None" "write_err x = None" "read_res x = Inr reply" "16 \<le> length reply"
  shows "fst (discoverDevice x host) = Inr (subslice reply 8 12, subslice reply 12 16)"
  using assms by (simp add: discoverDevice_def conn_Read_def Let_def slice_copy_buf)

lemma discoverDevice_short:
  assumes "read_res x = Inr reply" "length reply < 16"
  shows "\<exists>e. fst (discoverDevice x host) = Inl e"
  using assms by (simp add: discoverDevice_def conn_Read_def Let_def split: option.splits)

lemma discoverDevice_short_err:
  assumes "dial_err x = None" "write_err x = None" "read_res x = Inr reply" "length reply < 16"
  shows "fst (discoverDevice x host) = Inl HelloTooShort"
  using assms by (simp add: discoverDevice_def conn_Read_def Let_def)

lemma encryptPayload_Inr: "\<exists>ct. encryptPayload L data token = Inr ct"
  by (simp add: encryptPayload_eq)

lemma setPower_sent:
  assumes "dial_err x = None" "write_err x = None"
  shows "fst (setPower L x host token deviceID stamp powerOn) = None"
proof -
  obtain ct where "encryptPayload L (json_Marshal_command ''set_power'' (if powerOn then ''on'' else ''off'')) token = Inr ct"
    using encryptPayload_Inr by blast
  then show ?thesis using assms by (simp add: setPower_def Let_def)
qed

lemma getSwitch_reply:
  assumes tok: "hex_DecodeString token = Inr tokenBytes"
    and disc: "fst (discoverDevice (hello_exchange net) host) = Inr ids"
    and dial: "dial_err (command_exchange net) = None"
    and wr: "write_err (command_exchange net) = None"
    and rd: "read_res (command_exchange net) = Inr reply"
    and n: "n = min (length reply) 1024"
  shows "fst (getSwitch L net host token) =
     (if n < 32 then (False, Some (ResponseTooShort n))
      else (case decryptPayload L (subslice reply 32 n) tokenBytes of
              Inl err \<Rightarrow> (False, Some (Wrapf ''decrypting response'' err))
            | Inr decrypted \<Rightarrow>
                (case json_Unmarshal L decrypted of
                   Inl err \<Rightarrow> (False, Some (Wrapf ''parsing response'' err))
                 | Inr result \<Rightarrow>
                     (case result of
                        [] \<Rightarrow> (False, Some NoPowerState)
                      | first # rest \<Rightarrow> (first = ''on'', None)))))"
proof -
  obtain ct where ct: "encryptPayload L (json_Marshal_command ''get_prop'' ''power'') tokenBytes = Inr ct"
    using encryptPayload_Inr by blast
  obtain deviceID stamp evs where d: "discoverDevice (hello_exchange net) host = (Inr (deviceID, stamp), evs)"
    using disc by (cases "discoverDevice (hello_exchange net) host"; cases ids) auto
  define buf where "buf = copy (replicate 1024 0) reply"
  have rd': "conn_Read (command_exchange net) (replicate 1024 0) = Inr (n, buf)"
    using rd n by (simp add: conn_Read_def buf_def)
  have sl: "subslice buf 32 n = subslice reply 32 n"
    unfolding buf_def using n by (intro slice_copy_buf) simp
  show ?thesis
    by (simp add: getSwitch_def Let_def tok d ct dial wr rd' sl split: sum.splits list.splits)
qed

lemma length_copy: "length (copy dst src) = length dst"
  by (simp add: copy_def)

lemma copy_at_append:
  "length a = lo \<Longrightarrow> length b = hi - lo \<Longrightarrow> lo \<le> hi \<Longrightarrow>
   copy_at (a @ b @ c) lo hi src = a @ copy b src @ c"
  by (simp add: copy_at_def)

lemma copy_at_append_end:
  "length a = lo \<Longrightarrow> length b = hi - lo \<Longrightarrow> lo \<le> hi \<Longrightarrow>
   copy_at (a @ b) lo hi src = a @ copy b src"
  using copy_at_append [of a lo b hi "[]" src] by simp

lemma copy_at_0:
  "length b = hi \<Longrightarrow> copy_at (b @ c) 0 hi src = copy b src @ c"
  using copy_at_append [of "[]" 0 b hi c src] by simp

lemma copy_zeros_prefix: "copy (replicate (length src) z @ rest) src = src @ rest"
  by (simp add: copy_def)

lemma length_hdr16: "length (hdr16 n deviceID stamp) = 16"
  by (simp add: hdr16_def length_copy)

lemma buildPacket_closed:
  "buildPacket L token deviceID stamp p =
     hdr16 (length p) deviceID stamp
     @ slice16 (md5_Sum L (hdr16 (length p) deviceID stamp @ token @ p)) @ p"
proof -
  define n where "n = length p"
  define A where "A = (\<lambda>a b. [0x21, 0x31, a, b, 0, 0, 0, 0 :: byte])"
  define Z4 where "Z4 = [0, 0, 0, 0 :: byte]"
  define h where "h = (\<lambda>a b. A a b @ copy Z4 deviceID @ copy Z4 stamp)"
  define Z16 where "Z16 = replicate 16 (0 :: byte)"
  define Zn where "Zn = replicate n (0 :: byte)"
  define Zt where "Zt = replicate (length token) (0 :: byte)"
  have lens: "length (A a b) = 8" "length Z4 = 4" "length Z16 = 16" "length Zn = n"
    "length (h a b) = 16" "length Zt = length token" for a b
    by (simp_all add: A_def Z4_def Z16_def Zn_def Zt_def h_def length_copy)
  have p0: "replicate (32 + n) (0 :: byte) = replicate 32 0 @ Zn"
    by (simp add: replicate_add Zn_def)
  have p1: "(replicate (32 + n) (0 :: byte))[0 := 0x21, Suc 0 := 0x31, 2 := a, 3 := b]
              = A a b @ Z4 @ Z4 @ Z16 @ Zn" for a b
    unfolding p0 by (simp add: replicate_numeral A_def Z4_def Z16_def)
  have p2: "copy_at (A a b @ Z4 @ Z4 @ Z16 @ Zn) 8 12 deviceID
              = A a b @ copy Z4 deviceID @ Z4 @ Z16 @ Zn" for a b
    by (rule copy_at_append) (simp_all add: lens)
  have p3: "copy_at (A a b @ copy Z4 deviceID @ Z4 @ Z16 @ Zn) 12 16 stamp = h a b @ Z16 @ Zn"
    for a b
    using copy_at_append [of "A a b @ copy Z4 deviceID" 12 Z4 16 "Z16 @ Zn" stamp]
    by (simp add: lens length_copy h_def)
  have p4: "hi = 32 + n \<Longrightarrow> copy_at (h a b @ Z16 @ Zn) 32 hi p = h a b @ Z16 @ p" for a b hi
    using copy_at_append_end [of "h a b @ Z16" 32 Zn "32 + n" p]
    by (simp add: lens copy_same_length n_def)
  have s0: "subslice (h a b @ Z16 @ p) 0 16 = h a b" for a b
    by (simp add: subslice_def lens)
  have c0: "replicate (16 + length token + n) (0 :: byte) = Z16 @ Zt @ Zn"
    by (simp add: replicate_add Z16_def Zt_def Zn_def)
  have c1: "copy_at (Z16 @ Zt @ Zn) 0 16 (h a b) = h a b @ Zt @ Zn" for a b
    using copy_at_0 [of Z16 16 "Zt @ Zn" "h a b"] by (simp add: lens copy_same_length)
  have c2: "hi = 16 + length token + n \<Longrightarrow>
             copy_at (h a b @ Zt @ Zn) 16 hi token = h a b @ token @ Zn"
    for a b hi
    using copy_at_append_end [of "h a b" 16 "Zt @ Zn" "16 + length token + n" token]
    by (simp add: lens Zt_def copy_zeros_prefix)
  have c3: "hi = 16 + length token + n \<Longrightarrow>
             copy_at (h a b @ token @ Zn) (16 + length token) hi p = h a b @ token @ p" for a b hi
    using copy_at_append_end [of "h a b @ token" "16 + length token" Zn "16 + length token + n" p]
    by (simp add: lens copy_same_length n_def)
  have p5: "copy_at (h a b @ Z16 @ p) 16 32 (slice16 x) = h a b @ slice16 x @ p" for a b x
    using copy_at_append [of "h a b" 16 Z16 32 p "slice16 x"]
    by (simp add: lens copy_same_length length_slice16)
  have hh: "hdr16 n deviceID stamp
             = h (ucast (drop_bit 8 (of_nat (32 + n) :: 16 word))) (ucast (of_nat (32 + n) :: 16 word))"
    by (simp add: hdr16_def h_def A_def Z4_def)
  show ?thesis
    unfolding buildPacket_def Let_def n_def [symmetric] hh
    by (simp add: p1 p2 p3 lens p4 s0 c0 c1 c2 c3 p5)
qed


lemma be16_value:
  "256 * unat (ucast (drop_bit 8 w) :: byte) + unat (ucast w :: byte) = unat (w :: 16 word)"
proof -
  have lt: "unat w < 65536" using unsigned_less [of w, where 'a = nat] by simp
  have a: "unat (ucast w :: byte) = unat w mod 256"
    by (simp add: unsigned_ucast_eq take_bit_eq_mod)
  have "unat (ucast (drop_bit 8 w) :: byte) = (unat w div 256) mod 256"
    by (simp add: unsigned_ucast_eq take_bit_eq_mod unat_drop_bit_eq)
       (simp add: drop_bit_eq_div)
  also have "\<dots> = unat w div 256" using lt by simp
  finally show ?thesis using a by simp
qed

lemma buildPacket_length: "length (buildPacket L token deviceID stamp p) = 32 + length p"
  by (simp add: buildPacket_closed length_hdr16 length_slice16)

lemma buildPacket_magic:
  "buildPacket L token deviceID stamp p ! 0 = 0x21"
  "buildPacket L token deviceID stamp p ! 1 = 0x31"
  by (simp_all add: buildPacket_closed hdr16_def)

lemma buildPacket_length_field:
  "256 * unat (buildPacket L token deviceID stamp p ! 2) + unat (buildPacket L token deviceID stamp p ! 3)
     = (32 + length p) mod 65536"
proof -
  have "buildPacket L token deviceID stamp p ! 2 = ucast (drop_bit 8 (of_nat (32 + length p) :: 16 word))"
    "buildPacket L token deviceID stamp p ! 3 = ucast (of_nat (32 + length p) :: 16 word)"
    unfolding buildPacket_closed hdr16_def by simp_all
  then show ?thesis
    by (simp only: be16_value unat_of_nat) simp
qed

lemma buildPacket_checksum:
  "subslice (buildPacket L token deviceID stamp p) 16 32
     = slice16 (md5_Sum L (subslice (buildPacket L token deviceID stamp p) 0 16 @ token @ p))"
  by (simp add: buildPacket_closed subslice_def length_hdr16 length_slice16)

lemma buildPacket_payload:
  "drop 32 (buildPacket L token deviceID stamp p) = p"
  by (simp add: buildPacket_closed length_hdr16 length_slice16)

section \<open>Facts about hex decoding\<close>

lemma digit_ranges:
  "(48 \<le> n \<and> n \<le> 57) \<longleftrightarrow> n \<in> set [48, 49, 50, 51, 52, 53, 54, 55, 56, 57 :: nat]"
  "(97 \<le> n \<and> n \<le> 102) \<longleftrightarrow> n \<in> set [97, 98, 99, 100, 101, 102 :: nat]"
  "(65 \<le> n \<and> n \<le> 70) \<longleftrightarrow> n \<in> set [65, 66, 67, 68, 69, 70 :: nat]"
proof -
  have l: "[48 ..< 58] = [48, 49, 50, 51, 52, 53, 54, 55, 56, 57 :: nat]"
    "[97 ..< 103] = [97, 98, 99, 100, 101, 102 :: nat]"
    "[65 ..< 71] = [65, 66, 67, 68, 69, 70 :: nat]"
    by simp_all
  have r: "(48 \<le> n \<and> n \<le> 57) \<longleftrightarrow> n \<in> set [48 ..< 58]"
    "(97 \<le> n \<and> n \<le> 102) \<longleftrightarrow> n \<in> set [97 ..< 103]"
    "(65 \<le> n \<and> n \<le> 70) \<longleftrightarrow> n \<in> set [65 ..< 71]"
    unfolding set_upt atLeastLessThan_iff by arith+
  show "(48 \<le> n \<and> n \<le> 57) \<longleftrightarrow> n \<in> set [48, 49, 50, 51, 52, 53, 54, 55, 56, 57 :: nat]"
    "(97 \<le> n \<and> n \<le> 102) \<longleftrightarrow> n \<in> set [97, 98, 99, 100, 101, 102 :: nat]"
    "(65 \<le> n \<and> n \<le> 70) \<longleftrightarrow> n \<in> set [65, 66, 67, 68, 69, 70 :: nat]"
    unfolding r l by (rule refl)+
qed

lemma reverseHexTable_invalid: "reverseHexTable c > 0x0f \<longleftrightarrow> c \<notin> hexDigits"
proof -
  define n where "n = (of_char c :: nat)"
  have eq: "(c = d) \<longleftrightarrow> n = of_char d" for d
    by (auto simp add: n_def)
  have mem: "c \<in> hexDigits \<longleftrightarrow>
      (48 \<le> n \<and> n \<le> 57) \<or> (97 \<le> n \<and> n \<le> 102) \<or> (65 \<le> n \<and> n \<le> 70)"
    unfolding hexDigits_def digit_ranges by (simp add: eq)
  have v: "m < 16 \<Longrightarrow> \<not> (of_nat m :: byte) > 0x0f" for m :: nat
    by (simp add: word_less_nat_alt unat_of_nat not_less)
  consider (d) "48 \<le> n \<and> n \<le> 57" | (l) "97 \<le> n \<and> n \<le> 102" | (u) "65 \<le> n \<and> n \<le> 70"
    | (x) "\<not> (48 \<le> n \<and> n \<le> 57)" "\<not> (97 \<le> n \<and> n \<le> 102)" "\<not> (65 \<le> n \<and> n \<le> 70)"
    by blast
  then show ?thesis
  proof cases
    case d
    then have "reverseHexTable c = of_nat (n - 48)"
      by (simp add: reverseHexTable_def n_def Let_def)
    moreover have "n - 48 < 16" using d by arith
    ultimately have "\<not> reverseHexTable c > 0x0f" using v by simp
    with d mem show ?thesis by simp
  next
    case l
    then have "reverseHexTable c = of_nat (n - 87)"
      by (simp add: reverseHexTable_def n_def Let_def)
    moreover have "n - 87 < 16" using l by arith
    ultimately have "\<not> reverseHexTable c > 0x0f" using v by simp
    with l mem show ?thesis by simp
  next
    case u
    then have "reverseHexTable c = of_nat (n - 55)"
      by (simp add: reverseHexTable_def n_def Let_def)
    moreover have "n - 55 < 16" using u by arith
    ultimately have "\<not> reverseHexTable c > 0x0f" using v by simp
    with u mem show ?thesis by simp
  next
    case x
    have "reverseHexTable c = 0xff"
      unfolding reverseHexTable_def Let_def n_def [symmetric] by (simp only: x if_False)
    with x mem show ?thesis by simp
  qed
qed

lemma hex_DecodeString_error:
  "(\<exists>e. hex_DecodeString s = Inl e) \<longleftrightarrow> odd (length s) \<or> \<not> set s \<subseteq> hexDigits"
proof (induction s rule: hex_DecodeString.induct)
  case (1 p q rest)
  show ?case
  proof (cases "p \<in> hexDigits \<and> q \<in> hexDigits")
    case True
    then have ok: "\<not> reverseHexTable p > 0x0f" "\<not> reverseHexTable q > 0x0f"
      by (simp_all add: reverseHexTable_invalid)
    have ih: "(\<exists>e. hex_DecodeString rest = Inl e) \<longleftrightarrow> odd (length rest) \<or> \<not> set rest \<subseteq> hexDigits"
      using "1.IH" [OF refl refl ok] .
    have "(\<exists>e. hex_DecodeString (p # q # rest) = Inl e) \<longleftrightarrow> (\<exists>e. hex_DecodeString rest = Inl e)"
      using ok by (cases "hex_DecodeString rest") (simp_all add: Let_def)
    with ih True show ?thesis by simp
  next
    case False
    then have "reverseHexTable p > 0x0f \<or> reverseHexTable q > 0x0f"
      by (simp add: reverseHexTable_invalid)
    then have "\<exists>e. hex_DecodeString (p # q # rest) = Inl e"
      by (auto simp add: Let_def)
    with False show ?thesis by auto
  qed
next
  case (2 p)
  then show ?case by (simp add: reverseHexTable_invalid)
next
  case 3
  then show ?case by simp
qed

section \<open>Facts about the stand-in library\<close>

lemma stub_lib_simps:
  "md5_Sum stub_lib = stub_md5" "aes_Encrypt stub_lib = stub_aes"
  "aes_Decrypt stub_lib = stub_aes" "json_Unmarshal stub_lib = stub_Unmarshal"
  by (simp_all add: stub_lib_def)

lemma md5sum_stub:
  "md5sum stub_lib data =
     map (\<lambda>b. b XOR of_nat (length data)) (rev (take 16 (data @ replicate 16 0)))"
  by (simp add: md5sum_def stub_lib_def stub_md5_def slice16_array16)

lemma length_stub_keystream: "length (stub_keystream key) = 16"
  by (simp add: stub_keystream_def)

lemma stub_aes_block:
  "length x = 16 \<Longrightarrow> slice16 (stub_aes key (array16 x)) = xorBytes x (stub_keystream key)"
  by (simp add: stub_aes_def slice16_array16 length_xorBytes length_stub_keystream)

lemma stub_aes_inverse: "stub_aes key (stub_aes key b) = b"
proof -
  have "slice16 (stub_aes key b) = xorBytes (slice16 b) (stub_keystream key)"
    by (simp add: stub_aes_def slice16_array16 length_xorBytes length_stub_keystream length_slice16)
  then have "stub_aes key (stub_aes key b) = array16 (slice16 b)"
    by (simp add: stub_aes_def [of key "stub_aes key b"] xorBytes_cancel length_slice16
          length_stub_keystream)
  then show ?thesis by (simp add: slice16_inverse)
qed

lemmas stub_eval = cbcEncryptLoop.simps cbcDecryptLoop.simps stub_lib_simps stub_aes_block
  xorBytes_def stub_keystream_def replicate_numeral md5sum_stub token0_def

section \<open>The claims about the crypto engine\<close>

text \<open>
  Claim C1. Encrypting any plaintext \<open>P\<close> (the empty one included) under any token
  \<open>T\<close> succeeds, and decrypting the result under the same token succeeds and gives
  back exactly \<open>P\<close>. The token need not even have sixteen bytes. The one assumption
  is the contract of the AES library: under a 16-byte key, decrypting a block undoes
  encrypting it.
\<close>

theorem decrypt_encrypt_roundtrip:
  assumes "\<And>key b. length key = 16 \<Longrightarrow> aes_Decrypt L key (aes_Encrypt L key b) = b"
  shows "\<exists>ct. encryptPayload L P T = Inr ct \<and> decryptPayload L ct T = Inr P"
proof -
  define k where "k = 16 - length P mod 16"
  define padded where "padded = P @ replicate k (of_nat k :: byte)"
  define key where "key = md5sum L T"
  define iv where "iv = md5sum L (key @ T)"
  define ct where "ct = cbcEncryptLoop (aes_Encrypt L key) iv padded"
  have k: "0 < k" "k \<le> 16" by (simp_all add: k_def)
  have al: "length padded mod 16 = 0"
    unfolding padded_def k_def using pad_aligned [of "length P"] by simp
  have liv: "length iv = 16" by (simp add: iv_def length_md5sum)
  have inv: "aes_Decrypt L key (aes_Encrypt L key b) = b" for b
    using assms by (simp add: key_def length_md5sum)
  have e: "encryptPayload L P T = Inr ct"
    unfolding encryptPayload_eq ct_def padded_def k_def key_def iv_def ..
  have lct: "length ct mod 16 = 0"
    using al by (simp add: ct_def length_cbcEncryptLoop)
  have pt: "cbcDecryptLoop (aes_Decrypt L key) iv ct = padded"
    unfolding ct_def using liv al inv by (rule cbc_roundtrip)
  have u: "unat (of_nat k :: byte) = k"
    using k by (simp add: unat_of_nat)
  have "decryptPayload L ct T = Inr P"
    using k by (simp add: decryptPayload_eq [OF lct] pt [unfolded key_def iv_def] padded_def u Let_def)
  with e show ?thesis by blast
qed

theorem decrypt_encrypt_roundtrip_witness:
  "(\<forall>key b. aes_Decrypt stub_lib key (aes_Encrypt stub_lib key b) = b)
   \<and> encryptPayload stub_lib [1, 2, 3] token0
       = Inr [0x54, 0x53, 0x52, 0x58, 0x3e, 0x3e, 0x58, 0x5c, 0x5c, 0x58, 0x3e, 0x3e, 0x58, 0x5c, 0x5c, 0x58]
   \<and> decryptPayload stub_lib
         [0x54, 0x53, 0x52, 0x58, 0x3e, 0x3e, 0x58, 0x5c, 0x5c, 0x58, 0x3e, 0x3e, 0x58, 0x5c, 0x5c, 0x58]
         token0 = Inr [1, 2, 3]
   \<and> encryptPayload stub_lib [] token0
       = Inr [0x45, 0x41, 0x41, 0x45, 0x23, 0x23, 0x45, 0x41, 0x41, 0x45, 0x23, 0x23, 0x45, 0x41, 0x41, 0x45]
   \<and> decryptPayload stub_lib
         [0x45, 0x41, 0x41, 0x45, 0x23, 0x23, 0x45, 0x41, 0x41, 0x45, 0x23, 0x23, 0x45, 0x41, 0x41, 0x45]
         token0 = Inr []"
proof -
  have inv: "aes_Decrypt stub_lib key (aes_Encrypt stub_lib key b) = b" for key b
    by (simp add: stub_lib_simps stub_aes_inverse)
  have e1: "encryptPayload stub_lib [1, 2, 3] token0
       = Inr [0x54, 0x53, 0x52, 0x58, 0x3e, 0x3e, 0x58, 0x5c, 0x5c, 0x58, 0x3e, 0x3e, 0x58, 0x5c, 0x5c, 0x58]"
    by (simp add: encryptPayload_eq stub_eval)
  have e2: "encryptPayload stub_lib [] token0
       = Inr [0x45, 0x41, 0x41, 0x45, 0x23, 0x23, 0x45, 0x41, 0x41, 0x45, 0x23, 0x23, 0x45, 0x41, 0x41, 0x45]"
    by (simp add: encryptPayload_eq stub_eval)
  from decrypt_encrypt_roundtrip [of stub_lib "[1, 2, 3]" token0] inv e1
  have d1: "decryptPayload stub_lib
         [0x54, 0x53, 0x52, 0x58, 0x3e, 0x3e, 0x58, 0x5c, 0x5c, 0x58, 0x3e, 0x3e, 0x58, 0x5c, 0x5c, 0x58]
         token0 = Inr [1, 2, 3]"
    by auto
  from decrypt_encrypt_roundtrip [of stub_lib "[]" token0] inv e2
  have d2: "decryptPayload stub_lib
         [0x45, 0x41, 0x41, 0x45, 0x23, 0x23, 0x45, 0x41, 0x41, 0x45, 0x23, 0x23, 0x45, 0x41, 0x41, 0x45]
         token0 = Inr []"
    by auto
  from inv e1 d1 e2 d2 show ?thesis by blast
qed

text \<open>
  Claim C9. For a plaintext of length \<open>n\<close>, under any token, encryption succeeds and
  the ciphertext has \<open>n + (16 - n mod 16)\<close> bytes. When \<open>n\<close> is a multiple of 16 the
  plaintext that goes through the cipher is the data followed by sixteen bytes of value
  16, and the ciphertext has \<open>n + 16\<close> bytes.
\<close>

theorem encryptPayload_length:
  "(\<exists>ct. encryptPayload L data token = Inr ct
         \<and> length ct = length data + (16 - length data mod 16))
   \<and> (length data mod 16 = 0 \<longrightarrow>
        (\<exists>ct. encryptPayload L data token = Inr ct
           \<and> ct = cbcEncryptLoop (aes_Encrypt L (md5sum L token))
                    (md5sum L (md5sum L token @ token)) (data @ replicate 16 16)
           \<and> length ct = length data + 16))"
proof -
  define k where "k = 16 - length data mod 16"
  have al: "(length data + k) mod 16 = 0"
    unfolding k_def by (rule pad_aligned)
  have len: "length (cbcEncryptLoop (aes_Encrypt L (md5sum L token))
      (md5sum L (md5sum L token @ token)) (data @ replicate k (of_nat k))) = length data + k"
    using al by (simp add: length_cbcEncryptLoop)
  have first: "\<exists>ct. encryptPayload L data token = Inr ct
         \<and> length ct = length data + (16 - length data mod 16)"
    using len unfolding encryptPayload_eq k_def by blast
  have second: "\<exists>ct. encryptPayload L data token = Inr ct
           \<and> ct = cbcEncryptLoop (aes_Encrypt L (md5sum L token))
                    (md5sum L (md5sum L token @ token)) (data @ replicate 16 16)
           \<and> length ct = length data + 16" if "length data mod 16 = 0"
  proof -
    have "k = 16" using that by (simp add: k_def)
    with len show ?thesis
      unfolding encryptPayload_eq using that by simp
  qed
  from first second show ?thesis by blast
qed

theorem encryptPayload_length_witness:
  "length [0x10, 0x11, 0x12, 0x13, 0x14, 0x15, 0x16, 0x17,
           0x18, 0x19, 0x1a, 0x1b, 0x1c, 0x1d, 0x1e, 0x1f :: byte] mod 16 = 0
   \<and> encryptPayload stub_lib
        [0x10, 0x11, 0x12, 0x13, 0x14, 0x15, 0x16, 0x17,
         0x18, 0x19, 0x1a, 0x1b, 0x1c, 0x1d, 0x1e, 0x1f] token0
       = Inr [0x45, 0x40, 0x43, 0x46, 0x27, 0x26, 0x43, 0x46, 0x49, 0x4c, 0x29, 0x28, 0x49, 0x4c, 0x4f, 0x4a,
              0x91, 0x83, 0xf1, 0xe7, 0xd1, 0xc3, 0x97, 0x85, 0xfb, 0xed, 0xdf, 0xcd, 0x9d, 0x8f, 0xfd, 0xeb]
   \<and> length [0x45, 0x40, 0x43, 0x46, 0x27, 0x26, 0x43, 0x46, 0x49, 0x4c, 0x29, 0x28, 0x49, 0x4c, 0x4f, 0x4a,
              0x91, 0x83, 0xf1, 0xe7, 0xd1, 0xc3, 0x97, 0x85, 0xfb, 0xed, 0xdf, 0xcd, 0x9d, 0x8f, 0xfd, 0xeb :: byte]
       = 16 + 16"
proof -
  let ?d = "[0x10, 0x11, 0x12, 0x13, 0x14, 0x15, 0x16, 0x17,
             0x18, 0x19, 0x1a, 0x1b, 0x1c, 0x1d, 0x1e, 0x1f :: byte]"
  have m: "length ?d mod 16 = 0" by simp
  from encryptPayload_length [of stub_lib ?d token0] m
  obtain ct where ct: "encryptPayload stub_lib ?d token0 = Inr ct"
    "ct = cbcEncryptLoop (aes_Encrypt stub_lib (md5sum stub_lib token0))
            (md5sum stub_lib (md5sum stub_lib token0 @ token0)) (?d @ replicate 16 16)"
    "length ct = length ?d + 16"
    by blast
  have "ct = [0x45, 0x40, 0x43, 0x46, 0x27, 0x26, 0x43, 0x46, 0x49, 0x4c, 0x29, 0x28, 0x49, 0x4c, 0x4f, 0x4a,
              0x91, 0x83, 0xf1, 0xe7, 0xd1, 0xc3, 0x97, 0x85, 0xfb, 0xed, 0xdf, 0xcd, 0x9d, 0x8f, 0xfd, 0xeb]"
    unfolding ct(2) by (simp add: stub_eval)
  with ct(1) show ?thesis by simp
qed

text \<open>
  Claim C8. In both directions the cipher is keyed with \<open>MD5(T)\<close> and the CBC chain
  starts from \<open>MD5(MD5(T) @ T)\<close>: \<^verbatim>\<open>encryptPayload\<close> returns the CBC encryption of the
  padded data under exactly that key and IV, and \<^verbatim>\<open>decryptPayload\<close>, on a ciphertext
  of whole blocks, strips the padding from the CBC decryption under exactly the same key
  and IV. Key and IV have sixteen bytes each. The equations hold for every token and
  every library, so the pair is a function of the token alone: deriving it again gives
  the same pair.
\<close>

theorem key_iv_derivation:
  "encryptPayload L data T =
     Inr (cbcEncryptLoop (aes_Encrypt L (slice16 (md5_Sum L T)))
            (slice16 (md5_Sum L (slice16 (md5_Sum L T) @ T)))
            (data @ replicate (16 - length data mod 16) (of_nat (16 - length data mod 16))))
   \<and> decryptPayload L ct T =
     (if length ct mod 16 \<noteq> 0 then Inl NotBlockMultiple
      else (let pt = cbcDecryptLoop (aes_Decrypt L (slice16 (md5_Sum L T)))
                       (slice16 (md5_Sum L (slice16 (md5_Sum L T) @ T))) ct;
                pad = unat (last pt)
            in if pt \<noteq> [] \<and> 0 < pad \<and> pad \<le> 16 \<and> pad \<le> length pt
               then Inr (take (length pt - pad) pt) else Inr pt))
   \<and> length (slice16 (md5_Sum L T)) = 16
   \<and> length (slice16 (md5_Sum L (slice16 (md5_Sum L T) @ T))) = 16"
proof -
  have m: "md5sum L x = slice16 (md5_Sum L x)" for x
    by (simp add: md5sum_def)
  have e: "encryptPayload L data T =
     Inr (cbcEncryptLoop (aes_Encrypt L (slice16 (md5_Sum L T)))
            (slice16 (md5_Sum L (slice16 (md5_Sum L T) @ T)))
            (data @ replicate (16 - length data mod 16) (of_nat (16 - length data mod 16))))"
    using encryptPayload_eq [of L data T] unfolding m .
  have d: "decryptPayload L ct T =
     (if length ct mod 16 \<noteq> 0 then Inl NotBlockMultiple
      else (let pt = cbcDecryptLoop (aes_Decrypt L (slice16 (md5_Sum L T)))
                       (slice16 (md5_Sum L (slice16 (md5_Sum L T) @ T))) ct;
                pad = unat (last pt)
            in if pt \<noteq> [] \<and> 0 < pad \<and> pad \<le> 16 \<and> pad \<le> length pt
               then Inr (take (length pt - pad) pt) else Inr pt))"
  proof (cases "length ct mod 16 = 0")
    case True
    then show ?thesis using decryptPayload_eq [OF True, of L T] unfolding m by simp
  next
    case False
    then show ?thesis by (simp add: decryptPayload_def Let_def)
  qed
  from e d show ?thesis by (simp add: length_slice16)
qed

text \<open>
  Claim C6. On a ciphertext of whole blocks \<^verbatim>\<open>decryptPayload\<close> never fails. It reads
  the last byte of the CBC-decrypted plaintext as the pad length \<open>pad\<close> and drops the
  last \<open>pad\<close> bytes exactly when the plaintext is not empty, \<open>1 \<le> pad \<le> 16\<close> and
  \<open>pad\<close> is at most the plaintext's length; in every other case the plaintext is
  returned as it is.
\<close>

theorem decryptPayload_padding:
  assumes "length ct mod 16 = 0"
  shows "decryptPayload L ct token =
     Inr (let pt = cbcDecryptLoop (aes_Decrypt L (md5sum L token))
                     (md5sum L (md5sum L token @ token)) ct;
              pad = unat (last pt)
          in if pt \<noteq> [] \<and> 1 \<le> pad \<and> pad \<le> 16 \<and> pad \<le> length pt
             then take (length pt - pad) pt else pt)"
  using decryptPayload_eq [OF assms, of L token] by (simp add: Let_def Suc_le_eq)

theorem decryptPayload_padding_witness:
  "decryptPayload stub_lib
     [0x54, 0x53, 0x52, 0x58, 0x3e, 0x3e, 0x58, 0x5c, 0x5c, 0x58, 0x3e, 0x3e, 0x58, 0x5c, 0x5c, 0x58]
     token0 = Inr [1, 2, 3]
   \<and> decryptPayload stub_lib
     [0x14, 0x10, 0x10, 0x14, 0x72, 0x72, 0x14, 0x10, 0x10, 0x14, 0x72, 0x72, 0x14, 0x10, 0x10, 0x75]
     token0
     = Inr [0x41, 0x41, 0x41, 0x41, 0x41, 0x41, 0x41, 0x41, 0x41, 0x41, 0x41, 0x41, 0x41, 0x41, 0x41, 0x20]
   \<and> decryptPayload stub_lib
     [0x14, 0x10, 0x10, 0x14, 0x72, 0x72, 0x14, 0x10, 0x10, 0x14, 0x72, 0x72, 0x14, 0x10, 0x10, 0x55]
     token0
     = Inr [0x41, 0x41, 0x41, 0x41, 0x41, 0x41, 0x41, 0x41, 0x41, 0x41, 0x41, 0x41, 0x41, 0x41, 0x41, 0x00]
   \<and> decryptPayload stub_lib [] token0 = Inr []"
proof -
  have a: "length [0x54, 0x53, 0x52, 0x58, 0x3e, 0x3e, 0x58, 0x5c, 0x5c, 0x58, 0x3e, 0x3e,
                   0x58, 0x5c, 0x5c, 0x58 :: byte] mod 16 = 0"
    and b: "length [0x14, 0x10, 0x10, 0x14, 0x72, 0x72, 0x14, 0x10, 0x10, 0x14, 0x72, 0x72,
                   0x14, 0x10, 0x10, 0x75 :: byte] mod 16 = 0"
    and c: "length [0x14, 0x10, 0x10, 0x14, 0x72, 0x72, 0x14, 0x10, 0x10, 0x14, 0x72, 0x72,
                   0x14, 0x10, 0x10, 0x55 :: byte] mod 16 = 0"
    and d: "length ([] :: byte list) mod 16 = 0"
    by simp_all
  show ?thesis
    unfolding decryptPayload_padding [OF a] decryptPayload_padding [OF b]
      decryptPayload_padding [OF c] decryptPayload_padding [OF d]
    by (simp add: stub_eval cbcDecryptLoop_Nil)
qed

section \<open>The claims about the packet codec and the exchanges\<close>

text \<open>
  Claim C3, as amended. For every token, device id, stamp and payload the packet has
  \<open>32 + length payload\<close> bytes, starts with \<open>0x21 0x31\<close>, carries at offset 2 the
  big-endian 16-bit value \<open>(32 + length payload) mod 65536\<close>, which is
  \<open>32 + length payload\<close> for every payload of at most 65503 bytes, and carries at
  offset 16 the MD5 digest of the packet's first sixteen bytes followed by the token and
  the payload. The model is a function of its four arguments and the library, as the
  source reads nothing else, so equal arguments give equal packets.
\<close>

theorem buildPacket_frame:
  "(let pkt = buildPacket L token deviceID stamp payload
    in length pkt = 32 + length payload
       \<and> pkt ! 0 = 0x21 \<and> pkt ! 1 = 0x31
       \<and> 256 * unat (pkt ! 2) + unat (pkt ! 3) = (32 + length payload) mod 65536
       \<and> (length payload \<le> 65503 \<longrightarrow>
            256 * unat (pkt ! 2) + unat (pkt ! 3) = 32 + length payload)
       \<and> subslice pkt 16 32 = slice16 (md5_Sum L (subslice pkt 0 16 @ token @ payload)))"
proof -
  have "length payload \<le> 65503 \<Longrightarrow> (32 + length payload) mod 65536 = 32 + length payload"
    by simp
  then show ?thesis
    unfolding Let_def
    using buildPacket_length [of L token deviceID stamp payload]
      buildPacket_magic [of L token deviceID stamp payload]
      buildPacket_length_field [of L token deviceID stamp payload]
      buildPacket_checksum [of L token deviceID stamp payload]
    by simp
qed

theorem buildPacket_frame_witness:
  "length [0x45, 0x40, 0x43, 0x46, 0x27, 0x26, 0x43, 0x46, 0x49, 0x4c, 0x29, 0x28, 0x49, 0x4c, 0x4f, 0x4a,
           0x91, 0x83, 0xf1, 0xe7, 0xd1, 0xc3, 0x97, 0x85, 0xfb, 0xed, 0xdf, 0xcd, 0x9d, 0x8f, 0xfd, 0xeb :: byte]
     \<le> 65503
   \<and> buildPacket stub_lib token0 [0, 0, 0, 1] [0, 0, 0, 2]
       [0x45, 0x40, 0x43, 0x46, 0x27, 0x26, 0x43, 0x46, 0x49, 0x4c, 0x29, 0x28, 0x49, 0x4c, 0x4f, 0x4a,
        0x91, 0x83, 0xf1, 0xe7, 0xd1, 0xc3, 0x97, 0x85, 0xfb, 0xed, 0xdf, 0xcd, 0x9d, 0x8f, 0xfd, 0xeb]
     = [0x21, 0x31, 0x00, 0x40, 0x00, 0x00, 0x00, 0x00, 0x00, 0x00, 0x00, 0x01, 0x00, 0x00, 0x00, 0x02,
        0x42, 0x40, 0x40, 0x40, 0x41, 0x40, 0x40, 0x40, 0x40, 0x40, 0x40, 0x40, 0x00, 0x40, 0x71, 0x61,
        0x45, 0x40, 0x43, 0x46, 0x27, 0x26, 0x43, 0x46, 0x49, 0x4c, 0x29, 0x28, 0x49, 0x4c, 0x4f, 0x4a,
        0x91, 0x83, 0xf1, 0xe7, 0xd1, 0xc3, 0x97, 0x85, 0xfb, 0xed, 0xdf, 0xcd, 0x9d, 0x8f, 0xfd, 0xeb]
   \<and> 256 * unat (0x00 :: byte) + unat (0x40 :: byte) = 32 + (32 :: nat)"
proof -
  let ?p = "[0x45, 0x40, 0x43, 0x46, 0x27, 0x26, 0x43, 0x46, 0x49, 0x4c, 0x29, 0x28, 0x49, 0x4c, 0x4f, 0x4a,
           0x91, 0x83, 0xf1, 0xe7, 0xd1, 0xc3, 0x97, 0x85, 0xfb, 0xed, 0xdf, 0xcd, 0x9d, 0x8f, 0xfd, 0xeb :: byte]"
  let ?pkt = "buildPacket stub_lib token0 [0, 0, 0, 1] [0, 0, 0, 2] ?p"
  have small: "length ?p \<le> 65503" by simp
  have bytes: "?pkt =
       [0x21, 0x31, 0x00, 0x40, 0x00, 0x00, 0x00, 0x00, 0x00, 0x00, 0x00, 0x01, 0x00, 0x00, 0x00, 0x02,
        0x42, 0x40, 0x40, 0x40, 0x41, 0x40, 0x40, 0x40, 0x40, 0x40, 0x40, 0x40, 0x00, 0x40, 0x71, 0x61,
        0x45, 0x40, 0x43, 0x46, 0x27, 0x26, 0x43, 0x46, 0x49, 0x4c, 0x29, 0x28, 0x49, 0x4c, 0x4f, 0x4a,
        0x91, 0x83, 0xf1, 0xe7, 0xd1, 0xc3, 0x97, 0x85, 0xfb, 0xed, 0xdf, 0xcd, 0x9d, 0x8f, 0xfd, 0xeb]"
    by (simp add: buildPacket_closed hdr16_def copy_def stub_lib_simps stub_md5_def
          slice16_array16 token0_def)
  have "256 * unat (?pkt ! 2) + unat (?pkt ! 3) = 32 + length ?p"
    using buildPacket_frame [of stub_lib token0 "[0, 0, 0, 1]" "[0, 0, 0, 2]" ?p] small
    unfolding Let_def by blast
  then have "256 * unat (0x00 :: byte) + unat (0x40 :: byte) = 32 + (32 :: nat)"
    unfolding bytes by simp
  with small bytes show ?thesis by blast
qed

theorem buildPacket_length_field_counterexample:
  "256 * unat (buildPacket stub_lib token0 [0, 0, 0, 1] [0, 0, 0, 2] (replicate 65504 0) ! 2)
     + unat (buildPacket stub_lib token0 [0, 0, 0, 1] [0, 0, 0, 2] (replicate 65504 0) ! 3)
   \<noteq> 32 + length (replicate 65504 (0 :: byte))"
  unfolding buildPacket_length_field by simp

lemma subslice_split:
  "16 \<le> length r \<Longrightarrow> subslice r 8 12 = take 4 (subslice r 8 16)"
  "16 \<le> length r \<Longrightarrow> subslice r 12 16 = drop 4 (subslice r 8 16)"
  by (simp_all add: subslice_def drop_take min_def)

lemma discoverDevice_frame:
  assumes "read_res x = Inr reply" "16 \<le> length reply" "16 \<le> length reply'"
    "subslice reply' 8 16 = subslice reply 8 16"
  shows "fst (discoverDevice (x\<lparr>read_res := Inr reply'\<rparr>) host) = fst (discoverDevice x host)"
proof (cases "dial_err x = None \<and> write_err x = None")
  case True
  then have "fst (discoverDevice x host) = Inr (subslice reply 8 12, subslice reply 12 16)"
    using assms by (intro discoverDevice_ok) simp_all
  moreover have "fst (discoverDevice (x\<lparr>read_res := Inr reply'\<rparr>) host)
      = Inr (subslice reply' 8 12, subslice reply' 12 16)"
    using True assms by (intro discoverDevice_ok) simp_all
  ultimately show ?thesis using assms by (simp add: subslice_split)
next
  case False
  then show ?thesis
    by (auto simp add: discoverDevice_def Let_def split: option.splits)
qed

text \<open>
  Claim C7. Whatever datagram the hello exchange delivers, a reply of fewer than 16
  bytes makes \<^verbatim>\<open>discoverDevice\<close> return an error and no identity (the error is
  \<open>HelloTooShort\<close> when dial and write succeeded). A reply of at least 16 bytes, after
  a successful dial and write, gives device id = reply bytes 8 to 11 and stamp = reply
  bytes 12 to 15. Nothing else of the reply is used: two replies of at least 16 bytes
  that agree on bytes 8 to 15 give the same result.
\<close>

theorem discoverDevice_reply:
  assumes "read_res x = Inr reply"
  shows "(length reply < 16 \<longrightarrow> (\<exists>e. fst (discoverDevice x host) = Inl e))
    \<and> (length reply < 16 \<and> dial_err x = None \<and> write_err x = None \<longrightarrow>
         fst (discoverDevice x host) = Inl HelloTooShort)
    \<and> (16 \<le> length reply \<and> dial_err x = None \<and> write_err x = None \<longrightarrow>
         fst (discoverDevice x host) = Inr (subslice reply 8 12, subslice reply 12 16))
    \<and> (\<forall>reply'. 16 \<le> length reply \<and> 16 \<le> length reply'
           \<and> subslice reply' 8 16 = subslice reply 8 16 \<longrightarrow>
         fst (discoverDevice (x\<lparr>read_res := Inr reply'\<rparr>) host) = fst (discoverDevice x host))"
  using discoverDevice_short [OF assms, of host]
    discoverDevice_short_err [OF _ _ assms, of host]
    discoverDevice_ok [OF _ _ assms, of host]
    discoverDevice_frame [OF assms, of _ host]
  by blast

theorem discoverDevice_reply_witness:
  "read_res (hello_exchange net_ok) = Inr hello_reply0
   \<and> length hello_reply0 = 32
   \<and> fst (discoverDevice (hello_exchange net_ok) host0) = Inr ([0, 0, 0, 1], [0, 0, 0, 2])
   \<and> fst (discoverDevice
        (hello_exchange net_ok\<lparr>read_res := Inr [0x21, 0x31, 0, 0x20, 0, 0, 0, 0, 0, 0, 0, 1, 0, 0, 0]\<rparr>)
        host0) = Inl HelloTooShort"
proof -
  let ?short = "[0x21, 0x31, 0, 0x20, 0, 0, 0, 0, 0, 0, 0, 1, 0, 0, 0] :: byte list"
  let ?x = "hello_exchange net_ok\<lparr>read_res := Inr ?short\<rparr>"
  have r: "read_res (hello_exchange net_ok) = Inr hello_reply0"
    and ok: "dial_err (hello_exchange net_ok) = None" "write_err (hello_exchange net_ok) = None"
    and l: "length hello_reply0 = 32"
    by (simp_all add: net_ok_def hello_reply0_def)
  have r': "read_res ?x = Inr ?short" and ok': "dial_err ?x = None" "write_err ?x = None"
    by (simp_all add: net_ok_def)
  have "fst (discoverDevice (hello_exchange net_ok) host0)
      = Inr (subslice hello_reply0 8 12, subslice hello_reply0 12 16)"
    using discoverDevice_reply [OF r, of host0] ok l by simp
  then have a: "fst (discoverDevice (hello_exchange net_ok) host0) = Inr ([0, 0, 0, 1], [0, 0, 0, 2])"
    by (simp add: subslice_def hello_reply0_def)
  have b: "fst (discoverDevice ?x host0) = Inl HelloTooShort"
    using discoverDevice_reply [OF r', of host0] ok' by simp
  from r l a b show ?thesis by blast
qed

lemma setSwitch_sent:
  assumes "hex_DecodeString token = Inr tokenBytes"
    and "fst (discoverDevice (hello_exchange net) host) = Inr ids"
    and "dial_err (command_exchange net) = None"
    and "write_err (command_exchange net) = None"
  shows "fst (setSwitch L net host token on) = None"
proof -
  obtain deviceID stamp evs where d:
    "discoverDevice (hello_exchange net) host = (Inr (deviceID, stamp), evs)"
    using assms(2) by (cases "discoverDevice (hello_exchange net) host"; cases ids) auto
  have "fst (setPower L (command_exchange net) host tokenBytes deviceID stamp on) = None"
    using assms(3,4) by (rule setPower_sent)
  then show ?thesis
    using assms(1) d by (auto simp add: setSwitch_def split: prod.splits)
qed

text \<open>
  Claim C4. When the token decodes, discovery succeeds and the command socket is
  opened and written, \<^verbatim>\<open>setSwitch\<close> returns no error, whatever the read on the command
  socket does afterwards: \<open>r\<close> ranges over every outcome of that read, a timeout or
  any other failure as well as any datagram.
\<close>

theorem setSwitch_ignores_reply:
  assumes "hex_DecodeString token = Inr tokenBytes"
    and "fst (discoverDevice (hello_exchange net) host) = Inr ids"
    and "dial_err (command_exchange net) = None"
    and "write_err (command_exchange net) = None"
  shows "fst (setSwitch L (net\<lparr>command_exchange := (command_exchange net)\<lparr>read_res := r\<rparr>\<rparr>)
               host token on) = None"
  using assms by (intro setSwitch_sent [where tokenBytes = tokenBytes and ids = ids]) simp_all


lemma decode_token_hex0: "hex_DecodeString token_hex0 = Inr token0"
  by (simp add: token_hex0_def token0_def reverseHexTable_def Let_def)

lemma hello_bytes:
  "fold (\<lambda>i h. h[i := 0xFF]) [4 ..< 32] ((replicate 32 (0 :: byte))[0 := 0x21, 1 := 0x31, 2 := 0x00, 3 := 0x20])
     = [0x21, 0x31, 0x00, 0x20] @ replicate 28 0xff"
  by (simp add: replicate_numeral)

lemma discover_net_ok:
  "discoverDevice (hello_exchange net_ok) host0
     = (Inr ([0, 0, 0, 1], [0, 0, 0, 2]),
        [DialTimeout ''192.168.1.100:54321'' 5, SetDeadline 5,
         Write ([0x21, 0x31, 0x00, 0x20] @ replicate 28 0xff), Read 1024, Close])"
  unfolding discoverDevice_def Let_def hello_bytes
  by (simp add: net_ok_def conn_Read_def host0_def hello_reply0_def copy_def subslice_def)

lemma set_power_on_ciphertext:
  "encryptPayload stub_lib (json_Marshal_command ''set_power'' ''on'') token0
     = Inr [0x2e, 0x73, 0x38, 0x31, 0x11, 0x09, 0x64, 0x7d, 0x73, 0x38, 0x56, 0x47, 0x3d, 0x3e, 0x35, 0x77,
            0xd0, 0x82, 0xe9, 0xe5, 0x83, 0xa3, 0xd0, 0xc1, 0xa6, 0xec, 0xc2, 0x90, 0xd5, 0xcf, 0xe7, 0xa7,
            0x66, 0x30, 0x26, 0x27, 0x47, 0x6c, 0x4f, 0x30, 0x6b, 0x33, 0x06, 0x38, 0x6c, 0x1f, 0x46, 0x15]"
  by (simp add: encryptPayload_eq json_Marshal_command_def stub_eval)

lemma setSwitch_silent_events:
  "setSwitch stub_lib net_silent host0 token_hex0 True =
     (None,
      [DialTimeout ''192.168.1.100:54321'' 5, SetDeadline 5,
       Write ([0x21, 0x31, 0x00, 0x20] @ replicate 28 0xff), Read 1024, Close,
       DialTimeout ''192.168.1.100:54321'' 5, SetDeadline 3,
       Write [0x21, 0x31, 0x00, 0x50, 0x00, 0x00, 0x00, 0x00, 0x00, 0x00, 0x00, 0x01, 0x00, 0x00, 0x00, 0x02,
              0x52, 0x50, 0x50, 0x50, 0x51, 0x50, 0x50, 0x50, 0x50, 0x50, 0x50, 0x50, 0x00, 0x50, 0x61, 0x71,
              0x2e, 0x73, 0x38, 0x31, 0x11, 0x09, 0x64, 0x7d, 0x73, 0x38, 0x56, 0x47, 0x3d, 0x3e, 0x35, 0x77,
              0xd0, 0x82, 0xe9, 0xe5, 0x83, 0xa3, 0xd0, 0xc1, 0xa6, 0xec, 0xc2, 0x90, 0xd5, 0xcf, 0xe7, 0xa7,
              0x66, 0x30, 0x26, 0x27, 0x47, 0x6c, 0x4f, 0x30, 0x6b, 0x33, 0x06, 0x38, 0x6c, 0x1f, 0x46, 0x15],
       Read 1024, Close])"
proof -
  have h: "hello_exchange net_silent = hello_exchange net_ok"
    and c: "dial_err (command_exchange net_silent) = None" "write_err (command_exchange net_silent) = None"
    by (simp_all add: net_silent_def net_ok_def)
  show ?thesis
    unfolding setSwitch_def decode_token_hex0 h discover_net_ok setPower_def
    by (simp add: set_power_on_ciphertext c host0_def)
       (simp add: buildPacket_closed hdr16_def copy_def stub_lib_simps stub_md5_def
          slice16_array16 token0_def)
qed

theorem setSwitch_ignores_reply_witness:
  "hex_DecodeString token_hex0 = Inr token0
   \<and> fst (discoverDevice (hello_exchange net_ok) host0) = Inr ([0, 0, 0, 1], [0, 0, 0, 2])
   \<and> dial_err (command_exchange net_ok) = None
   \<and> write_err (command_exchange net_ok) = None
   \<and> read_res (command_exchange net_silent) = Inl (NetError ''i/o timeout'')
   \<and> fst (setSwitch stub_lib net_silent host0 token_hex0 True) = None
   \<and> snd (setSwitch stub_lib net_silent host0 token_hex0 True) =
      [DialTimeout ''192.168.1.100:54321'' 5, SetDeadline 5,
       Write ([0x21, 0x31, 0x00, 0x20] @ replicate 28 0xff), Read 1024, Close,
       DialTimeout ''192.168.1.100:54321'' 5, SetDeadline 3,
       Write [0x21, 0x31, 0x00, 0x50, 0x00, 0x00, 0x00, 0x00, 0x00, 0x00, 0x00, 0x01, 0x00, 0x00, 0x00, 0x02,
              0x52, 0x50, 0x50, 0x50, 0x51, 0x50, 0x50, 0x50, 0x50, 0x50, 0x50, 0x50, 0x00, 0x50, 0x61, 0x71,
              0x2e, 0x73, 0x38, 0x31, 0x11, 0x09, 0x64, 0x7d, 0x73, 0x38, 0x56, 0x47, 0x3d, 0x3e, 0x35, 0x77,
              0xd0, 0x82, 0xe9, 0xe5, 0x83, 0xa3, 0xd0, 0xc1, 0xa6, 0xec, 0xc2, 0x90, 0xd5, 0xcf, 0xe7, 0xa7,
              0x66, 0x30, 0x26, 0x27, 0x47, 0x6c, 0x4f, 0x30, 0x6b, 0x33, 0x06, 0x38, 0x6c, 0x1f, 0x46, 0x15],
       Read 1024, Close]"
proof -
  have d: "fst (discoverDevice (hello_exchange net_ok) host0) = Inr ([0, 0, 0, 1], [0, 0, 0, 2])"
    by (simp add: discover_net_ok)
  have ok: "dial_err (command_exchange net_ok) = None" "write_err (command_exchange net_ok) = None"
    "read_res (command_exchange net_silent) = Inl (NetError ''i/o timeout'')"
    by (simp_all add: net_ok_def net_silent_def)
  have "fst (setSwitch stub_lib net_silent host0 token_hex0 True) = None"
    unfolding net_silent_def
    using decode_token_hex0 d ok(1,2) by (rule setSwitch_ignores_reply)
  with decode_token_hex0 d ok show ?thesis by (simp add: setSwitch_silent_events)
qed

lemma discoverDevice_dials:
  "\<exists>rest. snd (discoverDevice x host) = DialTimeout (host @ '':54321'') 5 # rest"
  by (simp add: discoverDevice_def Let_def split: option.splits sum.splits prod.splits)

lemma setSwitch_dials:
  assumes "hex_DecodeString token = Inr tokenBytes"
  shows "\<exists>rest. snd (setSwitch L net host token on) = DialTimeout (host @ '':54321'') 5 # rest"
proof -
  obtain r evs where d: "discoverDevice (hello_exchange net) host = (r, evs)"
    by (cases "discoverDevice (hello_exchange net) host")
  obtain rest where "evs = DialTimeout (host @ '':54321'') 5 # rest"
    using discoverDevice_dials [of "hello_exchange net" host] d by auto
  then show ?thesis
    using assms d by (auto simp add: setSwitch_def split: sum.splits prod.splits)
qed

lemma getSwitch_dials:
  assumes "hex_DecodeString token = Inr tokenBytes"
  shows "\<exists>rest. snd (getSwitch L net host token) = DialTimeout (host @ '':54321'') 5 # rest"
proof -
  obtain r evs where d: "discoverDevice (hello_exchange net) host = (r, evs)"
    by (cases "discoverDevice (hello_exchange net) host")
  obtain rest where "evs = DialTimeout (host @ '':54321'') 5 # rest"
    using discoverDevice_dials [of "hello_exchange net" host] d by auto
  then show ?thesis
    using assms d
    by (auto simp add: getSwitch_def Let_def split: sum.splits prod.splits option.splits)
qed

section \<open>The claims about the public operations\<close>

text \<open>
  Claim C2, as amended. A token string of odd length, or with a character that is not
  a hex digit, makes both \<^verbatim>\<open>setSwitch\<close> and \<^verbatim>\<open>getSwitch\<close> return a
  \<^verbatim>\<open>decoding token\<close> error with no network event at all: no socket is opened and
  nothing is sent. The only check on the token is \<^verbatim>\<open>hex.DecodeString\<close>; an even
  number of hex digits other than 32 decodes, and the exchange goes on to discovery
  (the counterexample: a token of 30 hex digits, for which \<^verbatim>\<open>setSwitch\<close> dials the
  device and returns no error).
\<close>

theorem invalid_token_no_network:
  assumes "odd (length token) \<or> \<not> set token \<subseteq> hexDigits"
  shows "\<exists>e. setSwitch L net host token on = (Some (Wrapf ''decoding token'' e), [])
           \<and> getSwitch L net host token = ((False, Some (Wrapf ''decoding token'' e)), [])"
proof -
  obtain e where "hex_DecodeString token = Inl e"
    using assms hex_DecodeString_error [of token] by blast
  then show ?thesis
    by (simp add: setSwitch_def getSwitch_def)
qed

theorem invalid_token_no_network_witness:
  "\<not> set ''a1b2c3d4e5f6a1b2c3d4e5f6a1b2c3dg'' \<subseteq> hexDigits
   \<and> setSwitch stub_lib net_ok host0 ''a1b2c3d4e5f6a1b2c3d4e5f6a1b2c3dg'' True
       = (Some (Wrapf ''decoding token'' (InvalidByteError CHR ''g'')), [])
   \<and> getSwitch stub_lib net_ok host0 ''a1b2c3d4e5f6a1b2c3d4e5f6a1b2c3dg''
       = ((False, Some (Wrapf ''decoding token'' (InvalidByteError CHR ''g''))), [])
   \<and> odd (length ''a1b2c3d4e5f6a1b2c3d4e5f6a1b2c3d'')
   \<and> setSwitch stub_lib net_ok host0 ''a1b2c3d4e5f6a1b2c3d4e5f6a1b2c3d'' False
       = (Some (Wrapf ''decoding token'' ErrLength), [])
   \<and> getSwitch stub_lib net_ok host0 ''a1b2c3d4e5f6a1b2c3d4e5f6a1b2c3d''
       = ((False, Some (Wrapf ''decoding token'' ErrLength)), [])"
proof -
  have g: "\<not> set ''a1b2c3d4e5f6a1b2c3d4e5f6a1b2c3dg'' \<subseteq> hexDigits"
    by (simp add: hexDigits_def)
  have o: "odd (length ''a1b2c3d4e5f6a1b2c3d4e5f6a1b2c3d'')"
    by simp
  have dg: "hex_DecodeString ''a1b2c3d4e5f6a1b2c3d4e5f6a1b2c3dg'' = Inl (InvalidByteError CHR ''g'')"
    by (simp add: reverseHexTable_def Let_def)
  have do: "hex_DecodeString ''a1b2c3d4e5f6a1b2c3d4e5f6a1b2c3d'' = Inl ErrLength"
    by (simp add: reverseHexTable_def Let_def)
  from invalid_token_no_network [of "''a1b2c3d4e5f6a1b2c3d4e5f6a1b2c3dg''" stub_lib net_ok host0 True] g
  obtain e where e: "setSwitch stub_lib net_ok host0 ''a1b2c3d4e5f6a1b2c3d4e5f6a1b2c3dg'' True
        = (Some (Wrapf ''decoding token'' e), [])"
      "getSwitch stub_lib net_ok host0 ''a1b2c3d4e5f6a1b2c3d4e5f6a1b2c3dg''
        = ((False, Some (Wrapf ''decoding token'' e)), [])"
    by blast
  have "e = InvalidByteError CHR ''g''"
    using e(1) dg by (simp add: setSwitch_def)
  with e have a: "setSwitch stub_lib net_ok host0 ''a1b2c3d4e5f6a1b2c3d4e5f6a1b2c3dg'' True
       = (Some (Wrapf ''decoding token'' (InvalidByteError CHR ''g'')), [])"
    "getSwitch stub_lib net_ok host0 ''a1b2c3d4e5f6a1b2c3d4e5f6a1b2c3dg''
       = ((False, Some (Wrapf ''decoding token'' (InvalidByteError CHR ''g''))), [])"
    by simp_all
  from invalid_token_no_network [of "''a1b2c3d4e5f6a1b2c3d4e5f6a1b2c3d''" stub_lib net_ok host0 False] o
  obtain e' where e': "setSwitch stub_lib net_ok host0 ''a1b2c3d4e5f6a1b2c3d4e5f6a1b2c3d'' False
        = (Some (Wrapf ''decoding token'' e'), [])"
      "getSwitch stub_lib net_ok host0 ''a1b2c3d4e5f6a1b2c3d4e5f6a1b2c3d''
        = ((False, Some (Wrapf ''decoding token'' e')), [])"
    by blast
  have "e' = ErrLength"
    using e'(1) do by (simp add: setSwitch_def)
  with e' have b: "setSwitch stub_lib net_ok host0 ''a1b2c3d4e5f6a1b2c3d4e5f6a1b2c3d'' False
       = (Some (Wrapf ''decoding token'' ErrLength), [])"
    "getSwitch stub_lib net_ok host0 ''a1b2c3d4e5f6a1b2c3d4e5f6a1b2c3d''
       = ((False, Some (Wrapf ''decoding token'' ErrLength)), [])"
    by simp_all
  from g o a b show ?thesis by blast
qed

theorem wrong_length_token_counterexample:
  "length ''a1b2c3d4e5f6a1b2c3d4e5f6a1b2c3'' = 30
   \<and> set ''a1b2c3d4e5f6a1b2c3d4e5f6a1b2c3'' \<subseteq> hexDigits
   \<and> fst (setSwitch stub_lib net_ok host0 ''a1b2c3d4e5f6a1b2c3d4e5f6a1b2c3'' True) = None
   \<and> take 1 (snd (setSwitch stub_lib net_ok host0 ''a1b2c3d4e5f6a1b2c3d4e5f6a1b2c3'' True))
       = [DialTimeout ''192.168.1.100:54321'' 5]
   \<and> take 1 (snd (getSwitch stub_lib net_ok host0 ''a1b2c3d4e5f6a1b2c3d4e5f6a1b2c3''))
       = [DialTimeout ''192.168.1.100:54321'' 5]"
proof -
  let ?t = "''a1b2c3d4e5f6a1b2c3d4e5f6a1b2c3''"
  have dec: "hex_DecodeString ?t
      = Inr [0xa1, 0xb2, 0xc3, 0xd4, 0xe5, 0xf6, 0xa1, 0xb2, 0xc3, 0xd4, 0xe5, 0xf6, 0xa1, 0xb2, 0xc3]"
    by (simp add: reverseHexTable_def Let_def)
  have d: "fst (discoverDevice (hello_exchange net_ok) host0) = Inr ([0, 0, 0, 1], [0, 0, 0, 2])"
    by (simp add: discover_net_ok)
  have ok: "dial_err (command_exchange net_ok) = None" "write_err (command_exchange net_ok) = None"
    by (simp_all add: net_ok_def)
  have r: "fst (setSwitch stub_lib net_ok host0 ?t True) = None"
    using dec d ok by (rule setSwitch_sent)
  have s: "take 1 (snd (setSwitch stub_lib net_ok host0 ?t True))
       = [DialTimeout ''192.168.1.100:54321'' 5]"
    using setSwitch_dials [OF dec, of stub_lib net_ok host0 True] by (auto simp add: host0_def)
  have g: "take 1 (snd (getSwitch stub_lib net_ok host0 ?t))
       = [DialTimeout ''192.168.1.100:54321'' 5]"
    using getSwitch_dials [OF dec, of stub_lib net_ok host0] by (auto simp add: host0_def)
  have h: "set ?t \<subseteq> hexDigits" by (simp add: hexDigits_def)
  from r s g h show ?thesis by simp
qed

text \<open>
  Claim C5. Let the token decode, discovery succeed, the command socket be opened and
  written, and the read deliver a datagram, of which \<open>n\<close> bytes arrive in the
  1024-byte buffer. If \<open>n < 32\<close> the result is the \<^verbatim>\<open>response too short\<close> error.
  Otherwise bytes 32 to \<open>n - 1\<close> are decrypted and the plaintext is unmarshalled; a
  failure of either is returned as an error, an empty \<^verbatim>\<open>result\<close> array is the
  \<^verbatim>\<open>no power state\<close> error, and in the remaining case the call succeeds with
  \<open>True\<close> exactly when the first element of \<^verbatim>\<open>result\<close> is the string \<open>on\<close>.
\<close>

theorem getSwitch_reply_handling:
  assumes "hex_DecodeString token = Inr tokenBytes"
    and "fst (discoverDevice (hello_exchange net) host) = Inr ids"
    and "dial_err (command_exchange net) = None"
    and "write_err (command_exchange net) = None"
    and "read_res (command_exchange net) = Inr reply"
    and "n = min (length reply) 1024"
  shows "fst (getSwitch L net host token) =
     (if n < 32 then (False, Some (ResponseTooShort n))
      else (case decryptPayload L (subslice reply 32 n) tokenBytes of
              Inl err \<Rightarrow> (False, Some (Wrapf ''decrypting response'' err))
            | Inr decrypted \<Rightarrow>
                (case json_Unmarshal L decrypted of
                   Inl err \<Rightarrow> (False, Some (Wrapf ''parsing response'' err))
                 | Inr result \<Rightarrow>
                     (case result of
                        [] \<Rightarrow> (False, Some NoPowerState)
                      | first # rest \<Rightarrow> (first = ''on'', None)))))"
  using assms by (rule getSwitch_reply)

lemma status_payload0:
  \<open>decryptPayload stub_lib (subslice status_reply0 32 64) token0
     = Inr (map of_char ''{"id":1,"result":["on"]}'')\<close>
  by (simp add: subslice_def status_reply0_def decryptPayload_eq stub_eval)

theorem getSwitch_reply_handling_witness:
  "hex_DecodeString token_hex0 = Inr token0
   \<and> fst (discoverDevice (hello_exchange net_ok) host0) = Inr ([0, 0, 0, 1], [0, 0, 0, 2])
   \<and> read_res (command_exchange net_ok) = Inr status_reply0
   \<and> min (length status_reply0) 1024 = 64
   \<and> fst (getSwitch stub_lib net_ok host0 token_hex0) = (True, None)
   \<and> fst (getSwitch stub_lib
        (net_ok\<lparr>command_exchange := (command_exchange net_ok)\<lparr>read_res := Inr (take 31 status_reply0)\<rparr>\<rparr>)
        host0 token_hex0) = (False, Some (ResponseTooShort 31))"
proof -
  let ?short = "net_ok\<lparr>command_exchange :=
                  (command_exchange net_ok)\<lparr>read_res := Inr (take 31 status_reply0)\<rparr>\<rparr>"
  have d: "fst (discoverDevice (hello_exchange net_ok) host0) = Inr ([0, 0, 0, 1], [0, 0, 0, 2])"
    by (simp add: discover_net_ok)
  have ok: "dial_err (command_exchange net_ok) = None" "write_err (command_exchange net_ok) = None"
    "read_res (command_exchange net_ok) = Inr status_reply0"
    by (simp_all add: net_ok_def)
  have n: "64 = min (length status_reply0) 1024"
    by (simp add: status_reply0_def)
  have d': "fst (discoverDevice (hello_exchange ?short) host0) = Inr ([0, 0, 0, 1], [0, 0, 0, 2])"
    by (simp add: discover_net_ok)
  have ok': "dial_err (command_exchange ?short) = None" "write_err (command_exchange ?short) = None"
    "read_res (command_exchange ?short) = Inr (take 31 status_reply0)"
    by (simp_all add: net_ok_def)
  have n': "31 = min (length (take 31 status_reply0)) 1024"
    by (simp add: status_reply0_def)
  have a: "fst (getSwitch stub_lib net_ok host0 token_hex0) = (True, None)"
    unfolding getSwitch_reply_handling [OF decode_token_hex0 d ok n]
    by (simp add: status_payload0 stub_lib_simps stub_Unmarshal_def)
  have b: "fst (getSwitch stub_lib ?short host0 token_hex0) = (False, Some (ResponseTooShort 31))"
    unfolding getSwitch_reply_handling [OF decode_token_hex0 d' ok' n']
    by simp
  from decode_token_hex0 d ok(3) n a b show ?thesis by simp
qed

text \<open>
  Claim C10. A reply of exactly 32 bytes passes the length check of \<^verbatim>\<open>getSwitch\<close>.
  Its payload is empty, \<^verbatim>\<open>decryptPayload\<close> of the empty sequence succeeds with the
  empty sequence, and the call fails at \<^verbatim>\<open>json.Unmarshal\<close>: the result is the
  \<^verbatim>\<open>parsing response\<close> error wrapping whatever error the parser reports for empty
  input (that \<^verbatim>\<open>json.Unmarshal\<close> rejects empty input is the library's behaviour, the
  last assumption).
\<close>

theorem getSwitch_header_only_reply:
  assumes "hex_DecodeString token = Inr tokenBytes"
    and "fst (discoverDevice (hello_exchange net) host) = Inr ids"
    and "dial_err (command_exchange net) = None"
    and "write_err (command_exchange net) = None"
    and "read_res (command_exchange net) = Inr reply"
    and "length reply = 32"
    and "json_Unmarshal L [] = Inl err"
  shows "decryptPayload L [] tokenBytes = Inr []
    \<and> fst (getSwitch L net host token) = (False, Some (Wrapf ''parsing response'' err))"
proof -
  have e: "decryptPayload L [] tokenBytes = Inr []"
    by (simp add: decryptPayload_eq cbcDecryptLoop_Nil)
  have n: "32 = min (length reply) 1024"
    using assms(6) by simp
  have s: "subslice reply 32 32 = []"
    by (simp add: subslice_def)
  have "fst (getSwitch L net host token) = (False, Some (Wrapf ''parsing response'' err))"
    unfolding getSwitch_reply [OF assms(1-5) n] by (simp add: s e assms(7))
  with e show ?thesis by simp
qed

theorem getSwitch_header_only_reply_witness:
  "length (take 32 status_reply0) = 32
   \<and> json_Unmarshal stub_lib [] = Inl (UnmarshalError ''unexpected end of JSON input'')
   \<and> decryptPayload stub_lib [] token0 = Inr []
   \<and> fst (getSwitch stub_lib
        (net_ok\<lparr>command_exchange := (command_exchange net_ok)\<lparr>read_res := Inr (take 32 status_reply0)\<rparr>\<rparr>)
        host0 token_hex0)
      = (False, Some (Wrapf ''parsing response'' (UnmarshalError ''unexpected end of JSON input'')))"
proof -
  let ?net = "net_ok\<lparr>command_exchange :=
                (command_exchange net_ok)\<lparr>read_res := Inr (take 32 status_reply0)\<rparr>\<rparr>"
  have d: "fst (discoverDevice (hello_exchange ?net) host0) = Inr ([0, 0, 0, 1], [0, 0, 0, 2])"
    by (simp add: discover_net_ok)
  have ok: "dial_err (command_exchange ?net) = None" "write_err (command_exchange ?net) = None"
    "read_res (command_exchange ?net) = Inr (take 32 status_reply0)"
    by (simp_all add: net_ok_def)
  have l: "length (take 32 status_reply0) = 32"
    by (simp add: status_reply0_def)
  have u: "json_Unmarshal stub_lib [] = Inl (UnmarshalError ''unexpected end of JSON input'')"
    by (simp add: stub_lib_simps stub_Unmarshal_def)
  from getSwitch_header_only_reply [OF decode_token_hex0 d ok l u] l u show ?thesis by simp
qed

end
